theory Spec2Isabelle
  imports Complex_Main "HOL-Library.Finite_Map" "HOL-Library.Multiset"
begin

section \<open>The interactive grid pattern: data model\<close>

text \<open>
  The component \<^verbatim>\<open>InteractiveGridPattern\<close> of
  \<^verbatim>\<open>src/components/ui/interactive-grid-pattern.tsx\<close> draws
  \<open>horizontal \<times> vertical\<close> squares of \<open>width \<times> height\<close> pixels each.  The two counts
  are natural numbers (their product is used as an array length); the two sizes and
  the pointer coordinates are JavaScript numbers.  The handlers below compute with them
  as with exact reals, and \<^verbatim>\<open>Math.floor\<close> is the floor function of the reals.  The
  section on the arithmetic of JavaScript numbers gives the index of line 80 as doubles
  compute it, with the rounding of each operation and with the infinities and NaN of a
  division by zero; the two agree whenever no quotient is rounded (lemma
  \<open>currentSquare_number_exact\<close>).
\<close>

record grid =
  width :: real
  height :: real
  horizontal :: nat
  vertical :: nat


text \<open>
  \<^verbatim>\<open>type SquareState = { state: 'highlighted' | 'fading'; timeoutId?: NodeJS.Timeout }\<close>.
  A timer handle is a positive integer in a browser and an object in Node, so a handle
  that is present is always truthy: the test \<^verbatim>\<open>if (square.timeoutId)\<close> is the test
  that the optional field is present.
\<close>

datatype phase = Highlighted | Fading

record SquareState =
  state :: phase
  timeoutId :: "nat option"

type_synonym squares = "(int, SquareState) fmap"

text \<open>
  The closures handed to \<^verbatim>\<open>setTimeout\<close>, as data.  Each closes over the index of one
  square.  \<open>DwellTimeout\<close> is the callback of lines 103 to 121, \<open>RemovalTimeout\<close> the one
  of lines 108 to 116 and of lines 141 to 149 (the same body), and \<open>FadeTimeout\<close> the
  callback of the two earlier variants of the component.
\<close>

datatype callback = DwellTimeout int | RemovalTimeout int | FadeTimeout int

fun callbackIndex :: "callback \<Rightarrow> int" where
  "callbackIndex (DwellTimeout index) = index"
| "callbackIndex (RemovalTimeout index) = index"
| "callbackIndex (FadeTimeout index) = index"

record timer =
  tid :: nat
  due :: nat
  callback :: callback

text \<open>
  The state of one mounted component together with the part of the host it acts on:
  \<^item> \<open>squaresState\<close>, the value of the \<^verbatim>\<open>useState\<close> cell;
  \<^item> \<open>lastSquareRef\<close>, the \<^verbatim>\<open>useRef\<close> cell (\<open>None\<close> is \<^verbatim>\<open>null\<close>);
  \<^item> \<open>timers\<close>, the host's pending one-shot timers, \<open>nextTimerId\<close>, the next handle the
    host gives out (handles grow), and \<open>now\<close>, the host's clock in milliseconds;
  \<^item> \<open>effectSquares\<close>, the value of \<^verbatim>\<open>squaresState\<close> that the cleanup closure of the
    \<^verbatim>\<open>useEffect\<close> of lines 46 to 55 has captured (the value of the last render), and
    \<open>renderPending\<close>, which says that \<^verbatim>\<open>setSquaresState\<close> has stored a new object
    since that render.
\<close>

record component =
  squaresState :: squares
  lastSquareRef :: "int option"
  timers :: "timer list"
  nextTimerId :: nat
  now :: nat
  effectSquares :: squares
  renderPending :: bool

definition mount :: component where
  "mount = \<lparr>squaresState = fmempty, lastSquareRef = None, timers = [], nextTimerId = 1,
             now = 0, effectSquares = fmempty, renderPending = False\<rparr>"

section \<open>The host: timers and object enumeration\<close>

definition setTimeout :: "callback \<Rightarrow> nat \<Rightarrow> component \<Rightarrow> nat \<times> component" where
  "setTimeout cb delay s =
     (nextTimerId s,
      s\<lparr>timers := timers s @ [\<lparr>tid = nextTimerId s, due = now s + delay, callback = cb\<rparr>],
        nextTimerId := Suc (nextTimerId s)\<rparr>)"

definition clearTimeout :: "nat \<Rightarrow> component \<Rightarrow> component" where
  "clearTimeout t s = s\<lparr>timers := filter (\<lambda>x. tid x \<noteq> t) (timers s)\<rparr>"

text \<open>\<^verbatim>\<open>if (square?.timeoutId) { clearTimeout(square.timeoutId); }\<close>\<close>

definition clearSquareTimeout :: "SquareState option \<Rightarrow> component \<Rightarrow> component" where
  "clearSquareTimeout square s =
     (case square of
        None \<Rightarrow> s
      | Some q \<Rightarrow> (case timeoutId q of None \<Rightarrow> s | Some t \<Rightarrow> clearTimeout t s))"

text \<open>
  \<^verbatim>\<open>Object.keys\<close> of an object whose keys are array indices lists them in ascending
  numeric order.
\<close>

definition objectKeys :: "squares \<Rightarrow> int list" where
  "objectKeys m = sorted_list_of_set (fmdom' m)"

text \<open>\<^verbatim>\<open>xs.slice(0, k)\<close>: a negative \<open>k\<close> counts from the end.\<close>

definition slice0 :: "int \<Rightarrow> 'a list \<Rightarrow> 'a list" where
  "slice0 k xs = (if k < 0 then take (nat (int (length xs) + k)) xs else take (nat k) xs)"

section \<open>Coordinate mapping and neighbour selection\<close>

text \<open>Line 80: the index of the square under the pointer.\<close>

definition currentSquare :: "grid \<Rightarrow> real \<Rightarrow> real \<Rightarrow> int" where
  "currentSquare g x y = \<lfloor>y / height g\<rfloor> * int (horizontal g) + \<lfloor>x / width g\<rfloor>"

text \<open>Lines 57 to 73: the two nested loops over \<open>i\<close> and \<open>j\<close> from \<open>-1\<close> to \<open>1\<close>.\<close>

definition getNeighbors :: "grid \<Rightarrow> real \<Rightarrow> real \<Rightarrow> int list" where
  "getNeighbors g x y =
     (let col = \<lfloor>x / width g\<rfloor>; row = \<lfloor>y / height g\<rfloor> in
      concat (map (\<lambda>i. concat (map (\<lambda>j.
        if i = 0 \<and> j = 0 then []
        else (let newRow = row + i; newCol = col + j in
              if newRow \<ge> 0 \<and> newRow < int (vertical g) \<and> newCol \<ge> 0 \<and> newCol < int (horizontal g)
              then [newRow * int (horizontal g) + newCol]
              else []))
        [-1, 0, 1])) [-1, 0, 1]))"

text \<open>
  Lines 89 to 91.  The sort with a random comparator is a parameter \<open>shuffle\<close>, and the
  value of the second \<^verbatim>\<open>Math.random()\<close> is a parameter \<open>r\<close>.
\<close>

definition randomNeighbors :: "grid \<Rightarrow> (int list \<Rightarrow> int list) \<Rightarrow> real \<Rightarrow> real \<Rightarrow> real \<Rightarrow> int list" where
  "randomNeighbors g shuffle r x y = slice0 (\<lfloor>r * 2\<rfloor> + 4) (shuffle (getNeighbors g x y))"

section \<open>The handlers of the component\<close>

text \<open>
  The body of the loop of lines 97 to 124, for one \<open>index\<close> of \<^verbatim>\<open>randomNeighbors\<close>.
  It reads \<^verbatim>\<open>newStates\<close> (a copy of the previous state, never written in the loop),
  and writes \<^verbatim>\<open>squaresToUpdate\<close> and the host's timers.
\<close>

definition highlightSquare :: "squares \<Rightarrow> int \<Rightarrow> squares \<times> component \<Rightarrow> squares \<times> component" where
  "highlightSquare newStates index = (\<lambda>(squaresToUpdate, s).
     let s1 = clearSquareTimeout (fmlookup newStates index) s;
         (newId, s2) = setTimeout (DwellTimeout index) 400 s1
     in (fmupd index \<lparr>state = Highlighted, timeoutId = Some newId\<rparr> squaresToUpdate, s2))"

text \<open>
  Lines 75 to 128.  The updater passed to \<^verbatim>\<open>setSquaresState\<close> runs on the current
  value at once, as React does when no update of the component is waiting for a render;
  the section on React's queue of state updates has the handler with an updater that
  waits.  Every updater of this component returns a fresh object, so the call always
  leaves a render pending.
\<close>

definition handleMouseMove ::
  "grid \<Rightarrow> (int list \<Rightarrow> int list) \<Rightarrow> real \<Rightarrow> real \<Rightarrow> real \<Rightarrow> component \<Rightarrow> component" where
  "handleMouseMove g shuffle r x y s =
     (if Some (currentSquare g x y) = lastSquareRef s then s
      else
        (let s0 = s\<lparr>lastSquareRef := Some (currentSquare g x y)\<rparr>;
             newStates = squaresState s0;
             (squaresToUpdate, s1) =
               fold (highlightSquare newStates) (randomNeighbors g shuffle r x y) (fmempty, s0)
         in s1\<lparr>squaresState := newStates ++\<^sub>f squaresToUpdate, renderPending := True\<rparr>))"

text \<open>The updater of lines 109 to 115 and of lines 142 to 148.\<close>

definition removalTimeout :: "int \<Rightarrow> component \<Rightarrow> component" where
  "removalTimeout index s =
     (let updatedInner = squaresState s in
      (case fmlookup updatedInner index of
         None \<Rightarrow> s\<lparr>renderPending := True\<rparr>
       | Some square \<Rightarrow>
           if state square = Fading
           then s\<lparr>squaresState := fmdrop index updatedInner, renderPending := True\<rparr>
           else s\<lparr>renderPending := True\<rparr>))"

text \<open>The updater of lines 104 to 120.\<close>

definition dwellTimeout :: "int \<Rightarrow> component \<Rightarrow> component" where
  "dwellTimeout index s =
     (let updated = squaresState s in
      (case fmlookup updated index of
         None \<Rightarrow> s\<lparr>renderPending := True\<rparr>
       | Some square \<Rightarrow>
           if state square = Highlighted
           then (let (removalTimeoutId, s1) = setTimeout (RemovalTimeout index) 500 s
                 in s1\<lparr>squaresState :=
                          fmupd index (square\<lparr>state := Fading, timeoutId := Some removalTimeoutId\<rparr>) updated,
                        renderPending := True\<rparr>)
           else s\<lparr>renderPending := True\<rparr>))"

text \<open>
  The updater in the timer callback of the two earlier variants of the component (the
  unnamed source file, lines 84 to 90 and lines 249 to 255): the square, when it still
  has an entry, gets the fresh entry \<^verbatim>\<open>{ state: 'fading' }\<close>.
\<close>

definition fadeTimeout :: "int \<Rightarrow> component \<Rightarrow> component" where
  "fadeTimeout index s =
     (let updated = squaresState s in
      (case fmlookup updated index of
         None \<Rightarrow> s\<lparr>renderPending := True\<rparr>
       | Some square \<Rightarrow>
           s\<lparr>squaresState := fmupd index \<lparr>state = Fading, timeoutId = None\<rparr> updated,
             renderPending := True\<rparr>))"

text \<open>
  The body of the loop of lines 133 to 152, for one \<open>key\<close>; \<^verbatim>\<open>newStates\<close> is kept in
  the field \<open>squaresState\<close> while the loop runs.
\<close>

definition fadeSquare :: "int \<Rightarrow> component \<Rightarrow> component" where
  "fadeSquare key s =
     (case fmlookup (squaresState s) key of
        None \<Rightarrow> s
      | Some square \<Rightarrow>
          (let s1 = clearSquareTimeout (Some square) s in
           if state square = Highlighted
           then (let (removalTimeoutId, s2) = setTimeout (RemovalTimeout key) 100 s1
                 in s2\<lparr>squaresState :=
                          fmupd key (square\<lparr>state := Fading, timeoutId := Some removalTimeoutId\<rparr>)
                            (squaresState s2)\<rparr>)
           else s1))"

text \<open>Lines 130 to 156.\<close>

definition handleMouseLeave :: "component \<Rightarrow> component" where
  "handleMouseLeave s =
     (fold fadeSquare (objectKeys (squaresState s)) s)\<lparr>lastSquareRef := None, renderPending := True\<rparr>"

section \<open>The host runs the component\<close>

text \<open>
  The cleanup function of lines 48 to 54, run on the \<^verbatim>\<open>squaresState\<close> that its closure
  captured.
\<close>

definition cleanupTimeouts :: "squares \<Rightarrow> component \<Rightarrow> component" where
  "cleanupTimeouts captured s =
     fold (\<lambda>key. clearSquareTimeout (fmlookup captured key)) (objectKeys captured) s"

text \<open>
  The effect of lines 46 to 55 has the dependency list \<^verbatim>\<open>[squaresState]\<close>.  After a
  render in which \<^verbatim>\<open>squaresState\<close> is a new object, React first runs the cleanup
  function that the previous run of the effect returned, with the values of that earlier
  render, and then runs the effect again, which returns a cleanup function closed over
  the new value.  When the component is removed, React runs the last cleanup function.
\<close>

definition render :: "component \<Rightarrow> component" where
  "render s =
     (if renderPending s
      then (cleanupTimeouts (effectSquares s) s)\<lparr>effectSquares := squaresState s, renderPending := False\<rparr>
      else s)"

definition unmount :: "component \<Rightarrow> component" where
  "unmount s = cleanupTimeouts (effectSquares s) s"

text \<open>Time passes; a pending timer that is due fires, and its callback runs.\<close>

definition elapse :: "nat \<Rightarrow> component \<Rightarrow> component" where
  "elapse d s = s\<lparr>now := now s + d\<rparr>"

fun runCallback :: "callback \<Rightarrow> component \<Rightarrow> component" where
  "runCallback (DwellTimeout index) s = dwellTimeout index s"
| "runCallback (RemovalTimeout index) s = removalTimeout index s"
| "runCallback (FadeTimeout index) s = fadeTimeout index s"

definition fireTimer :: "nat \<Rightarrow> component \<Rightarrow> component" where
  "fireTimer t s =
     (case find (\<lambda>x. tid x = t) (timers s) of
        None \<Rightarrow> s
      | Some x \<Rightarrow>
          if due x \<le> now s
          then runCallback (callback x) (s\<lparr>timers := filter (\<lambda>z. tid z \<noteq> t) (timers s)\<rparr>)
          else s)"

text \<open>
  The states the mounted component can reach when React runs every updater at once.  The
  random sort returns a permutation of its argument.
\<close>

inductive reachable :: "grid \<Rightarrow> component \<Rightarrow> bool" for g :: grid where
  reachable_mount: "reachable g mount"
| reachable_move:
    "reachable g s \<Longrightarrow> mset (shuffle (getNeighbors g x y)) = mset (getNeighbors g x y)
       \<Longrightarrow> reachable g (handleMouseMove g shuffle r x y s)"
| reachable_leave: "reachable g s \<Longrightarrow> reachable g (handleMouseLeave s)"
| reachable_fire: "reachable g s \<Longrightarrow> reachable g (fireTimer t s)"
| reachable_elapse: "reachable g s \<Longrightarrow> reachable g (elapse d s)"
| reachable_render: "reachable g s \<Longrightarrow> reachable g (render s)"

text \<open>The pending timers whose callback is about the square \<open>index\<close>.\<close>

definition pendingFor :: "int \<Rightarrow> component \<Rightarrow> timer list" where
  "pendingFor index s = filter (\<lambda>t. callbackIndex (callback t) = index) (timers s)"

section \<open>The variant of the component that consults the breakpoint hook\<close>











section \<open>The earliest variant of the component\<close>



section \<open>React's queue of state updates\<close>

text \<open>
  The handlers above run the function passed to \<^verbatim>\<open>setSquaresState\<close> at once.  React
  does so only when the component has no update waiting for a render; otherwise it puts
  the function in a queue and calls it during the next render, after the functions queued
  before it.  The functions of this component call \<^verbatim>\<open>setTimeout\<close> and
  \<^verbatim>\<open>clearTimeout\<close>, so it matters when they run.  The functions passed to
  \<^verbatim>\<open>setSquaresState\<close>, as data: the one of lines 93 to 127, which closes over
  \<^verbatim>\<open>randomNeighbors\<close>, the one of lines 131 to 154, and the one of a timer callback.
\<close>

datatype updater = Move "int list" | Leave | Timeout callback

text \<open>Lines 93 to 127; \<open>selected\<close> is the list \<^verbatim>\<open>randomNeighbors\<close> of the closure.\<close>

definition moveUpdater :: "int list \<Rightarrow> component \<Rightarrow> component" where
  "moveUpdater selected s =
     (let newStates = squaresState s;
          (squaresToUpdate, s1) = fold (highlightSquare newStates) selected (fmempty, s)
      in s1\<lparr>squaresState := newStates ++\<^sub>f squaresToUpdate, renderPending := True\<rparr>)"

text \<open>Lines 131 to 154.\<close>

definition leaveUpdater :: "component \<Rightarrow> component" where
  "leaveUpdater s = (fold fadeSquare (objectKeys (squaresState s)) s)\<lparr>renderPending := True\<rparr>"

fun runUpdater :: "updater \<Rightarrow> component \<Rightarrow> component" where
  "runUpdater (Move selected) s = moveUpdater selected s"
| "runUpdater Leave s = leaveUpdater s"
| "runUpdater (Timeout cb) s = runCallback cb s"

text \<open>
  The component with the updaters that wait for the next render.  An update is waiting
  exactly when \<open>renderPending\<close> holds, since every updater of the component returns a
  new object.
\<close>

record fiber =
  current :: component
  updateQueue :: "updater list"

definition setSquaresState :: "updater \<Rightarrow> fiber \<Rightarrow> fiber" where
  "setSquaresState u f =
     (if renderPending (current f) then f\<lparr>updateQueue := updateQueue f @ [u]\<rparr>
      else f\<lparr>current := runUpdater u (current f)\<rparr>)"

text \<open>Lines 75 to 128, with the call of \<^verbatim>\<open>setSquaresState\<close> left to React.\<close>

definition onMouseMove ::
  "grid \<Rightarrow> (int list \<Rightarrow> int list) \<Rightarrow> real \<Rightarrow> real \<Rightarrow> real \<Rightarrow> fiber \<Rightarrow> fiber" where
  "onMouseMove g shuffle r x y f =
     (if Some (currentSquare g x y) = lastSquareRef (current f) then f
      else setSquaresState (Move (randomNeighbors g shuffle r x y))
             (f\<lparr>current := (current f)\<lparr>lastSquareRef := Some (currentSquare g x y)\<rparr>\<rparr>))"

text \<open>Lines 130 to 156.\<close>

definition onMouseLeave :: "fiber \<Rightarrow> fiber" where
  "onMouseLeave f =
     (let f1 = setSquaresState Leave f
      in f1\<lparr>current := (current f1)\<lparr>lastSquareRef := None\<rparr>\<rparr>)"

text \<open>A pending timer that is due fires: its callback calls \<^verbatim>\<open>setSquaresState\<close>.\<close>

definition onTimeout :: "nat \<Rightarrow> fiber \<Rightarrow> fiber" where
  "onTimeout t f =
     (case find (\<lambda>x. tid x = t) (timers (current f)) of
        None \<Rightarrow> f
      | Some x \<Rightarrow>
          if due x \<le> now (current f)
          then setSquaresState (Timeout (callback x))
                 (f\<lparr>current := (current f)\<lparr>timers := filter (\<lambda>z. tid z \<noteq> t) (timers (current f))\<rparr>\<rparr>)
          else f)"

text \<open>
  React renders: it calls the queued updaters in their order, each on the result of the
  one before, and then runs the effect as in \<open>render\<close>.
\<close>

definition renderFiber :: "fiber \<Rightarrow> fiber" where
  "renderFiber f = \<lparr>current = render (fold runUpdater (updateQueue f) (current f)), updateQueue = []\<rparr>"

definition wait :: "nat \<Rightarrow> fiber \<Rightarrow> fiber" where
  "wait d f = f\<lparr>current := elapse d (current f)\<rparr>"

definition mountFiber :: fiber where
  "mountFiber = \<lparr>current = mount, updateQueue = []\<rparr>"

section \<open>The arithmetic of JavaScript numbers\<close>

text \<open>
  A JavaScript number is an IEEE 754 double: a real that the format represents, one of the
  two infinities, or NaN.  The sign of a zero is not represented.
\<close>

datatype number = Finite real | PosInfinity | NegInfinity | NaN

text \<open>
  A double has 53 significant bits.  For \<open>2 ^ e \<le> \<bar>q\<bar> < 2 ^ (e + 1)\<close> the doubles around
  \<open>q\<close> are the multiples of \<open>2 ^ (e - 52)\<close>; below \<open>2 ^ (- 1022)\<close> they are the multiples
  of \<open>2 ^ (- 1074)\<close>.  The result of an operation is the double nearest to the exact
  result, the one with the even multiple when two are equally near, and an infinity when
  that multiple has a magnitude of \<open>2 ^ 1024\<close> or more.
\<close>

definition binade :: "real \<Rightarrow> int" where
  "binade q = max \<lfloor>log 2 \<bar>q\<bar>\<rfloor> (- 1022)"

definition ulp :: "real \<Rightarrow> real" where
  "ulp q = power_int 2 (binade q - 52)"

definition roundTiesToEven :: "real \<Rightarrow> int" where
  "roundTiesToEven m =
     (if m - of_int \<lfloor>m\<rfloor> < 1 / 2 then \<lfloor>m\<rfloor>
      else if 1 / 2 < m - of_int \<lfloor>m\<rfloor> then \<lfloor>m\<rfloor> + 1
      else if even \<lfloor>m\<rfloor> then \<lfloor>m\<rfloor> else \<lfloor>m\<rfloor> + 1)"

definition roundDouble :: "real \<Rightarrow> number" where
  "roundDouble q =
     (if q = 0 then Finite 0
      else (let v = ulp q * of_int (roundTiesToEven (q / ulp q)) in
            if 2 ^ 1024 \<le> \<bar>v\<bar> then (if 0 < q then PosInfinity else NegInfinity)
            else Finite v))"

text \<open>
  The operators \<^verbatim>\<open>/\<close>, \<^verbatim>\<open>*\<close> and \<^verbatim>\<open>+\<close> and the function \<^verbatim>\<open>Math.floor\<close>.  The
  operands of the division of line 80 are a pointer coordinate and a size, which are
  finite.
\<close>

definition divide_number :: "real \<Rightarrow> real \<Rightarrow> number" where
  "divide_number a b =
     (if b = 0 then (if a = 0 then NaN else if 0 < a then PosInfinity else NegInfinity)
      else roundDouble (a / b))"

fun Math_floor :: "number \<Rightarrow> number" where
  "Math_floor (Finite v) = Finite (of_int \<lfloor>v\<rfloor>)"
| "Math_floor PosInfinity = PosInfinity"
| "Math_floor NegInfinity = NegInfinity"
| "Math_floor NaN = NaN"

fun times_number :: "number \<Rightarrow> number \<Rightarrow> number" where
  "times_number (Finite a) (Finite b) = roundDouble (a * b)"
| "times_number (Finite a) PosInfinity = (if a = 0 then NaN else if 0 < a then PosInfinity else NegInfinity)"
| "times_number (Finite a) NegInfinity = (if a = 0 then NaN else if 0 < a then NegInfinity else PosInfinity)"
| "times_number PosInfinity (Finite b) = (if b = 0 then NaN else if 0 < b then PosInfinity else NegInfinity)"
| "times_number NegInfinity (Finite b) = (if b = 0 then NaN else if 0 < b then NegInfinity else PosInfinity)"
| "times_number PosInfinity PosInfinity = PosInfinity"
| "times_number PosInfinity NegInfinity = NegInfinity"
| "times_number NegInfinity PosInfinity = NegInfinity"
| "times_number NegInfinity NegInfinity = PosInfinity"
| "times_number NaN b = NaN"
| "times_number a NaN = NaN"

fun plus_number :: "number \<Rightarrow> number \<Rightarrow> number" where
  "plus_number (Finite a) (Finite b) = roundDouble (a + b)"
| "plus_number (Finite a) PosInfinity = PosInfinity"
| "plus_number (Finite a) NegInfinity = NegInfinity"
| "plus_number PosInfinity (Finite b) = PosInfinity"
| "plus_number NegInfinity (Finite b) = NegInfinity"
| "plus_number PosInfinity PosInfinity = PosInfinity"
| "plus_number PosInfinity NegInfinity = NaN"
| "plus_number NegInfinity PosInfinity = NaN"
| "plus_number NegInfinity NegInfinity = NegInfinity"
| "plus_number NaN b = NaN"
| "plus_number a NaN = NaN"

text \<open>
  Line 80,
  \<^verbatim>\<open>Math.floor(y / height) * horizontal + Math.floor(x / width)\<close>, in this arithmetic.
\<close>

definition currentSquare_number :: "grid \<Rightarrow> real \<Rightarrow> real \<Rightarrow> number" where
  "currentSquare_number g x y =
     plus_number (times_number (Math_floor (divide_number y (height g))) (Finite (real (horizontal g))))
                 (Math_floor (divide_number x (width g)))"


section \<open>Notions used in the proofs\<close>

text \<open>The handle recorded for the square \<open>k\<close>, if any.\<close>

definition handleOf :: "squares \<Rightarrow> int \<Rightarrow> nat option" where
  "handleOf m k = (case fmlookup m k of None \<Rightarrow> None | Some q \<Rightarrow> timeoutId q)"

text \<open>
  The invariant of the timers: pending timers have different handles, older than the
  next handle; the handle of a pending timer is recorded for the square of its callback
  and for no other square; and every recorded handle is older than the next handle.
\<close>

definition consistent :: "component \<Rightarrow> bool" where
  "consistent s \<longleftrightarrow>
     distinct (map tid (timers s))
     \<and> (\<forall>x\<in>set (timers s). tid x < nextTimerId s
           \<and> (\<forall>k. handleOf (squaresState s) k = Some (tid x) \<longleftrightarrow> k = callbackIndex (callback x)))
     \<and> (\<forall>k t. handleOf (squaresState s) k = Some t \<longrightarrow> t < nextTimerId s)"

text \<open>Once rendered, the cleanup closure of the effect holds the current state.\<close>

definition rendered :: "component \<Rightarrow> bool" where
  "rendered s \<longleftrightarrow> (\<not> renderPending s \<longrightarrow> effectSquares s = squaresState s)"

text \<open>
  A square gets a new timer and a new entry with its handle, after the timer of its old
  entry is cleared: what the loops of the two handlers and the dwell callback do to one
  square.
\<close>

definition rearm :: "int \<Rightarrow> phase \<Rightarrow> callback \<Rightarrow> nat \<Rightarrow> component \<Rightarrow> component" where
  "rearm k ph cb d s =
     s\<lparr>timers := filter (\<lambda>x. Some (tid x) \<noteq> handleOf (squaresState s) k) (timers s)
                   @ [\<lparr>tid = nextTimerId s, due = now s + d, callback = cb\<rparr>],
       nextTimerId := Suc (nextTimerId s),
       squaresState := fmupd k \<lparr>state = ph, timeoutId = Some (nextTimerId s)\<rparr> (squaresState s)\<rparr>"

text \<open>The loop body of \<^verbatim>\<open>handleMouseMove\<close>, writing into the state at once.\<close>

definition retrigger :: "int \<Rightarrow> component \<Rightarrow> component" where
  "retrigger index s =
     (let s1 = clearSquareTimeout (fmlookup (squaresState s) index) s;
          (newId, s2) = setTimeout (DwellTimeout index) 400 s1
      in s2\<lparr>squaresState := fmupd index \<lparr>state = Highlighted, timeoutId = Some newId\<rparr> (squaresState s2)\<rparr>)"

text \<open>The offsets \<open>(i, j)\<close> that the two loops of \<^verbatim>\<open>getNeighbors\<close> keep.\<close>

definition inGrid :: "int \<Rightarrow> int \<Rightarrow> int \<Rightarrow> int \<Rightarrow> int \<times> int \<Rightarrow> bool" where
  "inGrid row col H V = (\<lambda>(i, j). \<not> (i = 0 \<and> j = 0)
      \<and> row + i \<ge> 0 \<and> row + i < V \<and> col + j \<ge> 0 \<and> col + j < H)"

text \<open>Two small grids for the examples: 2 by 1 and 3 by 3 squares of 10 by 10.\<close>

definition grid21 :: grid where
  "grid21 = \<lparr>width = 10, height = 10, horizontal = 2, vertical = 1\<rparr>"

definition grid33 :: grid where
  "grid33 = \<lparr>width = 10, height = 10, horizontal = 3, vertical = 3\<rparr>"

definition grid31 :: grid where
  "grid31 = \<lparr>width = 10, height = 10, horizontal = 3, vertical = 1\<rparr>"

section \<open>Arithmetic of the grid and the neighbour list\<close>

lemma index_inj:
  fixes r c r' c' H :: int
  assumes "0 \<le> c" "c < H" "0 \<le> c'" "c' < H" "r * H + c = r' * H + c'"
  shows "r = r' \<and> c = c'"
proof -
  have "(r * H + c) div H = r" using assms(1,2) by simp
  moreover have "(r' * H + c') div H = r'" using assms(3,4) by simp
  ultimately have "r = r'" using assms(5) by simp
  with assms(5) show ?thesis by simp
qed

lemma concat_singletons: "concat (map (\<lambda>j. if P j then [f j] else []) js) = map f (filter P js)"
  by (induction js) simp_all

lemma concat_product:
  "concat (map (\<lambda>i. map (f i) (filter (P i) js)) is) =
     map (\<lambda>(i, j). f i j) (filter (\<lambda>(i, j). P i j) (List.product is js))"
  by (induction "is") (simp_all add: filter_map comp_def)

lemma getNeighbors_product:
  "getNeighbors g x y =
     map (\<lambda>(i, j). (\<lfloor>y / height g\<rfloor> + i) * int (horizontal g) + (\<lfloor>x / width g\<rfloor> + j))
       (filter (inGrid \<lfloor>y / height g\<rfloor> \<lfloor>x / width g\<rfloor> (int (horizontal g)) (int (vertical g)))
          (List.product [-1, 0, 1] [-1, 0, 1]))"
proof -
  define row where "row = \<lfloor>y / height g\<rfloor>"
  define col where "col = \<lfloor>x / width g\<rfloor>"
  define H where "H = int (horizontal g)"
  define V where "V = int (vertical g)"
  have body: "(if i = 0 \<and> j = 0 then []
        else (let newRow = row + i; newCol = col + j in
              if newRow \<ge> 0 \<and> newRow < V \<and> newCol \<ge> 0 \<and> newCol < H
              then [newRow * H + newCol] else []))
      = (if inGrid row col H V (i, j) then [(row + i) * H + (col + j)] else [])" for i j
    by (simp add: inGrid_def Let_def)
  have "getNeighbors g x y =
      concat (map (\<lambda>i. concat (map (\<lambda>j.
        if inGrid row col H V (i, j) then [(row + i) * H + (col + j)] else []) [-1, 0, 1])) [-1, 0, 1])"
    unfolding getNeighbors_def row_def[symmetric] col_def[symmetric] H_def[symmetric] V_def[symmetric]
    by (simp only: Let_def[of row] Let_def[of col] body)
  also have "\<dots> = concat (map (\<lambda>i. map (\<lambda>j. (row + i) * H + (col + j))
        (filter (\<lambda>j. inGrid row col H V (i, j)) [-1, 0, 1])) [-1, 0, 1])"
    by (simp only: concat_singletons)
  also have "\<dots> = map (\<lambda>(i, j). (row + i) * H + (col + j))
      (filter (\<lambda>(i, j). inGrid row col H V (i, j)) (List.product [-1, 0, 1] [-1, 0, 1]))"
    by (rule concat_product)
  finally show ?thesis
    unfolding row_def col_def H_def V_def by (simp only: case_prod_eta)
qed

lemma getNeighbors_distinct: "distinct (getNeighbors g x y)"
proof -
  define row where "row = \<lfloor>y / height g\<rfloor>"
  define col where "col = \<lfloor>x / width g\<rfloor>"
  define H where "H = int (horizontal g)"
  define V where "V = int (vertical g)"
  have d: "distinct (filter (inGrid row col H V) (List.product [-1, 0, 1] [-1, 0, 1]))"
    by (intro distinct_filter distinct_product) simp_all
  have inj: "inj_on (\<lambda>(i, j). (row + i) * H + (col + j))
      (set (filter (inGrid row col H V) (List.product [-1, 0, 1] [-1, 0, 1])))"
  proof (rule inj_onI)
    fix p q
    assume p: "p \<in> set (filter (inGrid row col H V) (List.product [-1, 0, 1] [-1, 0, 1]))"
      and q: "q \<in> set (filter (inGrid row col H V) (List.product [-1, 0, 1] [-1, 0, 1]))"
      and e: "(case p of (i, j) \<Rightarrow> (row + i) * H + (col + j)) = (case q of (i, j) \<Rightarrow> (row + i) * H + (col + j))"
    obtain i j where pp: "p = (i, j)" by (cases p)
    obtain i' j' where qq: "q = (i', j')" by (cases q)
    from p have "inGrid row col H V p" by (simp only: set_filter mem_Collect_eq)
    with pp have bp: "0 \<le> col + j" "col + j < H" by (simp_all add: inGrid_def)
    from q have "inGrid row col H V q" by (simp only: set_filter mem_Collect_eq)
    with qq have bq: "0 \<le> col + j'" "col + j' < H" by (simp_all add: inGrid_def)
    from e pp qq have "(row + i) * H + (col + j) = (row + i') * H + (col + j')" by simp
    from index_inj[OF bp bq this] show "p = q" using pp qq by simp
  qed
  show ?thesis
    unfolding getNeighbors_product row_def[symmetric] col_def[symmetric] H_def[symmetric] V_def[symmetric]
    using d inj by (simp add: distinct_map)
qed



section \<open>The invariant of the timers\<close>

lemma SquareState_update_all [simp]:
  "(q::SquareState)\<lparr>state := a, timeoutId := b\<rparr> = \<lparr>state = a, timeoutId = b\<rparr>"
  by (cases q) simp

lemma clearSquareTimeout_timers:
  "clearSquareTimeout (fmlookup m k) s = s\<lparr>timers := filter (\<lambda>x. Some (tid x) \<noteq> handleOf m k) (timers s)\<rparr>"
  by (simp add: clearSquareTimeout_def handleOf_def clearTimeout_def split: option.splits)

lemma retrigger_rearm: "retrigger index s = rearm index Highlighted (DwellTimeout index) 400 s"
  by (simp add: retrigger_def rearm_def clearSquareTimeout_timers setTimeout_def Let_def)

lemma handleOf_upd [simp]:
  "handleOf (fmupd k q m) k' = (if k = k' then timeoutId q else handleOf m k')"
  by (simp add: handleOf_def)

lemma consistentD:
  assumes "consistent s"
  shows "distinct (map tid (timers s))"
    and "\<And>x. x \<in> set (timers s) \<Longrightarrow> tid x < nextTimerId s"
    and "\<And>x k. x \<in> set (timers s) \<Longrightarrow>
           handleOf (squaresState s) k = Some (tid x) \<longleftrightarrow> k = callbackIndex (callback x)"
    and "\<And>k t. handleOf (squaresState s) k = Some t \<Longrightarrow> t < nextTimerId s"
  using assms unfolding consistent_def by blast+

lemma consistentI:
  assumes "distinct (map tid (timers s))"
    and "\<And>x. x \<in> set (timers s) \<Longrightarrow> tid x < nextTimerId s"
    and "\<And>x k. x \<in> set (timers s) \<Longrightarrow>
           handleOf (squaresState s) k = Some (tid x) \<longleftrightarrow> k = callbackIndex (callback x)"
    and "\<And>k t. handleOf (squaresState s) k = Some t \<Longrightarrow> t < nextTimerId s"
  shows "consistent s"
  using assms unfolding consistent_def by blast

lemma consistent_rearm:
  assumes c: "consistent s" and cb: "callbackIndex cb = k"
  shows "consistent (rearm k ph cb d s)"
proof -
  let ?keep = "filter (\<lambda>x. Some (tid x) \<noteq> handleOf (squaresState s) k) (timers s)"
  let ?new = "\<lparr>tid = nextTimerId s, due = now s + d, callback = cb\<rparr>"
  let ?m = "fmupd k \<lparr>state = ph, timeoutId = Some (nextTimerId s)\<rparr> (squaresState s)"
  note d = consistentD(1)[OF c] and old = consistentD(2)[OF c]
    and rec = consistentD(3)[OF c] and lt = consistentD(4)[OF c]
  have keep: "x \<in> set (timers s) \<and> callbackIndex (callback x) \<noteq> k" if "x \<in> set ?keep" for x
    using that rec[of x k] by auto
  have c1: "distinct (map tid (?keep @ [?new]))"
  proof -
    have "distinct (map tid ?keep)" using d by (simp add: distinct_map_filter)
    moreover have "nextTimerId s \<notin> tid ` set ?keep"
    proof
      assume "nextTimerId s \<in> tid ` set ?keep"
      then obtain x where "x \<in> set ?keep" "tid x = nextTimerId s" by auto
      with keep[of x] old[of x] show False by simp
    qed
    ultimately show ?thesis by simp
  qed
  have c2: "tid x < Suc (nextTimerId s)" if "x \<in> set (?keep @ [?new])" for x
  proof (cases "x = ?new")
    case True
    then show ?thesis by simp
  next
    case False
    with that have "x \<in> set ?keep" by simp
    from keep[OF this] old[of x] show ?thesis by (simp add: less_Suc_eq)
  qed
  have c3: "handleOf ?m k' = Some (tid x) \<longleftrightarrow> k' = callbackIndex (callback x)"
    if "x \<in> set (?keep @ [?new])" for x k'
  proof (cases "x = ?new")
    case True
    show ?thesis
    proof (cases "k' = k")
      case True
      then show ?thesis using \<open>x = ?new\<close> cb by simp
    next
      case False
      have "handleOf (squaresState s) k' \<noteq> Some (nextTimerId s)"
        using lt[of k' "nextTimerId s"] by auto
      then show ?thesis using False \<open>x = ?new\<close> cb by auto
    qed
  next
    case False
    with that have "x \<in> set ?keep" by simp
    from keep[OF this] have x: "x \<in> set (timers s)" and nk: "callbackIndex (callback x) \<noteq> k"
      by simp_all
    show ?thesis
    proof (cases "k' = k")
      case True
      then show ?thesis using nk old[OF x] by auto
    next
      case False
      then show ?thesis using rec[OF x, of k'] by auto
    qed
  qed
  have c4: "t < Suc (nextTimerId s)" if "handleOf ?m k' = Some t" for k' t
    using that lt[of k' t] by (simp add: less_Suc_eq split: if_splits)
  have "consistent (s\<lparr>timers := ?keep @ [?new], nextTimerId := Suc (nextTimerId s), squaresState := ?m\<rparr>)"
    by (rule consistentI) (use c1 c2 c3 c4 in simp_all)
  then show ?thesis unfolding rearm_def .
qed

lemma consistent_fewer_timers:
  assumes "consistent s"
  shows "consistent (s\<lparr>timers := filter P (timers s)\<rparr>)"
  using assms by (auto simp: consistent_def distinct_map_filter)

lemma consistent_cong:
  assumes "consistent s" "timers s' = timers s" "nextTimerId s' = nextTimerId s"
    "squaresState s' = squaresState s"
  shows "consistent s'"
  using assms by (simp add: consistent_def)

lemma consistent_retrigger: "consistent s \<Longrightarrow> consistent (retrigger index s)"
  unfolding retrigger_rearm by (rule consistent_rearm) simp_all

lemma consistent_fold_retrigger: "consistent s \<Longrightarrow> consistent (fold retrigger xs s)"
  by (induction xs arbitrary: s) (simp_all add: consistent_retrigger)

lemma highlightSquare_retrigger:
  assumes "index \<notin> fmdom' upd"
  shows "highlightSquare ns index (upd, st) =
     (fmupd index \<lparr>state = Highlighted, timeoutId = Some (nextTimerId st)\<rparr> upd,
      (retrigger index (st\<lparr>squaresState := ns ++\<^sub>f upd\<rparr>))\<lparr>squaresState := squaresState st\<rparr>)"
proof -
  have "fmlookup (ns ++\<^sub>f upd) index = fmlookup ns index"
    using assms by (simp add: fmdom'_alt_def)
  then have "handleOf (ns ++\<^sub>f upd) index = handleOf ns index"
    by (simp add: handleOf_def)
  then show ?thesis
    by (simp add: highlightSquare_def retrigger_rearm rearm_def clearSquareTimeout_timers
        setTimeout_def Let_def)
qed

lemma fold_highlightSquare:
  assumes "distinct xs" and "set xs \<inter> fmdom' upd = {}"
  shows "(case fold (highlightSquare ns) xs (upd, st) of
            (upd', st') \<Rightarrow> st'\<lparr>squaresState := ns ++\<^sub>f upd'\<rparr>)
         = fold retrigger xs (st\<lparr>squaresState := ns ++\<^sub>f upd\<rparr>)"
  using assms
proof (induction xs arbitrary: upd st)
  case Nil
  then show ?case by simp
next
  case (Cons x xs)
  let ?q = "\<lparr>state = Highlighted, timeoutId = Some (nextTimerId st)\<rparr>"
  let ?st = "(retrigger x (st\<lparr>squaresState := ns ++\<^sub>f upd\<rparr>))\<lparr>squaresState := squaresState st\<rparr>"
  from Cons.prems have x: "x \<notin> fmdom' upd" by auto
  from Cons.prems have d: "distinct xs" and disj: "set xs \<inter> fmdom' (fmupd x ?q upd) = {}" by auto
  have step: "?st\<lparr>squaresState := ns ++\<^sub>f fmupd x ?q upd\<rparr> = retrigger x (st\<lparr>squaresState := ns ++\<^sub>f upd\<rparr>)"
    by (simp add: retrigger_rearm rearm_def)
  have "fold (highlightSquare ns) (x # xs) (upd, st) = fold (highlightSquare ns) xs (fmupd x ?q upd, ?st)"
    by (simp add: highlightSquare_retrigger[OF x])
  then have "(case fold (highlightSquare ns) (x # xs) (upd, st) of
            (upd', st') \<Rightarrow> st'\<lparr>squaresState := ns ++\<^sub>f upd'\<rparr>)
      = (case fold (highlightSquare ns) xs (fmupd x ?q upd, ?st) of
            (upd', st') \<Rightarrow> st'\<lparr>squaresState := ns ++\<^sub>f upd'\<rparr>)"
    by (simp only:)
  also have "\<dots> = fold retrigger xs (?st\<lparr>squaresState := ns ++\<^sub>f fmupd x ?q upd\<rparr>)"
    by (rule Cons.IH[OF d disj])
  also have "\<dots> = fold retrigger xs (retrigger x (st\<lparr>squaresState := ns ++\<^sub>f upd\<rparr>))"
    by (simp only: step)
  also have "\<dots> = fold retrigger (x # xs) (st\<lparr>squaresState := ns ++\<^sub>f upd\<rparr>)"
    by simp
  finally show ?case .
qed

lemma handleMouseMove_retrigger:
  assumes "Some (currentSquare g x y) \<noteq> lastSquareRef s"
    and "distinct (randomNeighbors g shuffle r x y)"
  shows "handleMouseMove g shuffle r x y s =
     (fold retrigger (randomNeighbors g shuffle r x y)
        (s\<lparr>lastSquareRef := Some (currentSquare g x y)\<rparr>))\<lparr>renderPending := True\<rparr>"
proof -
  let ?s0 = "s\<lparr>lastSquareRef := Some (currentSquare g x y)\<rparr>"
  have "(case fold (highlightSquare (squaresState s)) (randomNeighbors g shuffle r x y) (fmempty, ?s0) of
            (upd', st') \<Rightarrow> st'\<lparr>squaresState := squaresState s ++\<^sub>f upd'\<rparr>)
         = fold retrigger (randomNeighbors g shuffle r x y) (?s0\<lparr>squaresState := squaresState s ++\<^sub>f fmempty\<rparr>)"
    by (rule fold_highlightSquare) (simp_all add: assms(2))
  then show ?thesis
    using assms(1) by (simp add: handleMouseMove_def Let_def split: prod.splits)
qed

lemma handleOf_drop [simp]:
  "handleOf (fmdrop k m) k' = (if k = k' then None else handleOf m k')"
  by (simp add: handleOf_def)

lemma distinct_randomNeighbors:
  assumes "mset (shuffle (getNeighbors g x y)) = mset (getNeighbors g x y)"
    and "distinct (getNeighbors g x y)"
  shows "distinct (randomNeighbors g shuffle r x y)"
proof -
  have "distinct (shuffle (getNeighbors g x y))"
    using assms mset_eq_imp_distinct_iff by blast
  then show ?thesis by (simp add: randomNeighbors_def slice0_def)
qed

lemma fadeSquare_cases:
  "fadeSquare key s =
     (case fmlookup (squaresState s) key of
        None \<Rightarrow> s
      | Some square \<Rightarrow>
          if state square = Highlighted then rearm key Fading (RemovalTimeout key) 100 s
          else s\<lparr>timers := filter (\<lambda>x. Some (tid x) \<noteq> handleOf (squaresState s) key) (timers s)\<rparr>)"
  by (simp add: fadeSquare_def rearm_def clearSquareTimeout_def clearTimeout_def setTimeout_def
      handleOf_def Let_def split: option.splits)

lemma consistent_fadeSquare: "consistent s \<Longrightarrow> consistent (fadeSquare key s)"
  unfolding fadeSquare_cases
  by (simp add: consistent_rearm consistent_fewer_timers split: option.splits)

lemma consistent_fold_fadeSquare: "consistent s \<Longrightarrow> consistent (fold fadeSquare ks s)"
  by (induction ks arbitrary: s) (simp_all add: consistent_fadeSquare)

lemma consistent_handleMouseLeave: "consistent s \<Longrightarrow> consistent (handleMouseLeave s)"
  unfolding handleMouseLeave_def
  by (rule consistent_cong[OF consistent_fold_fadeSquare]) simp_all

lemma consistent_handleMouseMove:
  assumes "consistent s"
    and "mset (shuffle (getNeighbors g x y)) = mset (getNeighbors g x y)"
    and "distinct (getNeighbors g x y)"
  shows "consistent (handleMouseMove g shuffle r x y s)"
proof (cases "Some (currentSquare g x y) = lastSquareRef s")
  case True
  then show ?thesis using assms(1) by (simp add: handleMouseMove_def)
next
  case False
  have "consistent (s\<lparr>lastSquareRef := Some (currentSquare g x y)\<rparr>)"
    by (rule consistent_cong[OF assms(1)]) simp_all
  then have "consistent (fold retrigger (randomNeighbors g shuffle r x y)
        (s\<lparr>lastSquareRef := Some (currentSquare g x y)\<rparr>))"
    by (rule consistent_fold_retrigger)
  then show ?thesis
    unfolding handleMouseMove_retrigger[OF False distinct_randomNeighbors[of shuffle g x y, OF assms(2,3)]]
    by (rule consistent_cong) simp_all
qed

lemma cleanupTimeouts_timers:
  "fold (\<lambda>key. clearSquareTimeout (fmlookup captured key)) ks s =
     s\<lparr>timers := filter (\<lambda>x. \<forall>k\<in>set ks. Some (tid x) \<noteq> handleOf captured k) (timers s)\<rparr>"
proof (induction ks arbitrary: s)
  case Nil
  then show ?case by simp
next
  case (Cons k ks)
  let ?F = "\<lambda>key. clearSquareTimeout (fmlookup captured key)"
  have "fold ?F (k # ks) s = fold ?F ks (?F k s)" by simp
  also have "\<dots> = (?F k s)\<lparr>timers :=
      filter (\<lambda>x. \<forall>k\<in>set ks. Some (tid x) \<noteq> handleOf captured k) (timers (?F k s))\<rparr>"
    by (rule Cons.IH)
  also have "\<dots> = s\<lparr>timers :=
      filter (\<lambda>x. \<forall>k\<in>set (k # ks). Some (tid x) \<noteq> handleOf captured k) (timers s)\<rparr>"
    by (simp add: clearSquareTimeout_timers conj_commute)
  finally show ?case .
qed

lemma consistent_cleanupTimeouts: "consistent s \<Longrightarrow> consistent (cleanupTimeouts captured s)"
  unfolding cleanupTimeouts_def cleanupTimeouts_timers by (rule consistent_fewer_timers)

lemma consistent_render: "consistent s \<Longrightarrow> consistent (render s)"
  unfolding render_def
  by (auto intro: consistent_cong[OF consistent_cleanupTimeouts])

lemma consistent_forget:
  assumes c: "consistent s"
    and none: "\<And>x. x \<in> set (timers s) \<Longrightarrow> callbackIndex (callback x) \<noteq> k"
    and same: "\<And>k'. k' \<noteq> k \<Longrightarrow> handleOf m k' = handleOf (squaresState s) k'"
    and gone: "handleOf m k = None"
  shows "consistent (s\<lparr>squaresState := m, renderPending := True\<rparr>)"
proof (rule consistentI)
  show "distinct (map tid (timers (s\<lparr>squaresState := m, renderPending := True\<rparr>)))"
    using consistentD(1)[OF c] by simp
next
  fix x assume "x \<in> set (timers (s\<lparr>squaresState := m, renderPending := True\<rparr>))"
  then show "tid x < nextTimerId (s\<lparr>squaresState := m, renderPending := True\<rparr>)"
    using consistentD(2)[OF c, of x] by simp
next
  fix x k'
  assume "x \<in> set (timers (s\<lparr>squaresState := m, renderPending := True\<rparr>))"
  then have x: "x \<in> set (timers s)" by simp
  show "handleOf (squaresState (s\<lparr>squaresState := m, renderPending := True\<rparr>)) k' = Some (tid x)
      \<longleftrightarrow> k' = callbackIndex (callback x)"
  proof (cases "k' = k")
    case True
    then show ?thesis using gone none[OF x] by auto
  next
    case False
    then show ?thesis using same[OF False] consistentD(3)[OF c x, of k'] by simp
  qed
next
  fix k' t
  assume "handleOf (squaresState (s\<lparr>squaresState := m, renderPending := True\<rparr>)) k' = Some t"
  then have h: "handleOf m k' = Some t" by simp
  then have "k' \<noteq> k" using gone by auto
  from same[OF this] h consistentD(4)[OF c, of k' t]
  show "t < nextTimerId (s\<lparr>squaresState := m, renderPending := True\<rparr>)" by simp
qed

lemma consistent_fireTimer:
  assumes c: "consistent s"
  shows "consistent (fireTimer t s)"
proof (cases "find (\<lambda>x. tid x = t) (timers s)")
  case None
  then show ?thesis using c by (simp add: fireTimer_def)
next
  case (Some x)
  then have x: "x \<in> set (timers s)" and tx: "tid x = t"
    by (auto simp: find_Some_iff)
  let ?s0 = "s\<lparr>timers := filter (\<lambda>z. tid z \<noteq> t) (timers s)\<rparr>"
  let ?k = "callbackIndex (callback x)"
  have c0: "consistent ?s0" using c by (rule consistent_fewer_timers)
  have h: "handleOf (squaresState s) ?k = Some t"
    using consistentD(3)[OF c x, of ?k] tx by simp
  have none: "callbackIndex (callback z) \<noteq> ?k" if "z \<in> set (timers ?s0)" for z
  proof
    assume "callbackIndex (callback z) = ?k"
    moreover from that have "z \<in> set (timers s)" "tid z \<noteq> t" by simp_all
    ultimately show False using consistentD(3)[OF c, of z ?k] h by simp
  qed
  have nofilter: "filter (\<lambda>z. Some (tid z) \<noteq> handleOf (squaresState ?s0) ?k) (timers ?s0) = timers ?s0"
    using h by (simp add: filter_id_conv)
  have run: "consistent (runCallback (callback x) ?s0)"
  proof (cases "callback x")
    case (DwellTimeout index)
    then have k: "?k = index" by simp
    show ?thesis
    proof (cases "fmlookup (squaresState s) index")
      case None
      then show ?thesis using DwellTimeout c0
        by (auto simp: dwellTimeout_def intro: consistent_cong[OF c0])
    next
      case (Some square)
      show ?thesis
      proof (cases "state square = Highlighted")
        case True
        have "dwellTimeout index ?s0 = (rearm index Fading (RemovalTimeout index) 500 ?s0)\<lparr>renderPending := True\<rparr>"
          using Some True nofilter unfolding k
          by (simp add: dwellTimeout_def rearm_def setTimeout_def Let_def)
        moreover have "consistent (rearm index Fading (RemovalTimeout index) 500 ?s0)"
          by (rule consistent_rearm[OF c0]) simp
        ultimately show ?thesis using DwellTimeout
          by (auto intro: consistent_cong)
      next
        case False
        then show ?thesis using DwellTimeout Some
          by (auto simp: dwellTimeout_def intro: consistent_cong[OF c0])
      qed
    qed
  next
    case (RemovalTimeout index)
    then have k: "?k = index" by simp
    show ?thesis
    proof (cases "fmlookup (squaresState s) index")
      case None
      then show ?thesis using RemovalTimeout
        by (auto simp: removalTimeout_def intro: consistent_cong[OF c0])
    next
      case (Some square)
      show ?thesis
      proof (cases "state square = Fading")
        case True
        have "consistent (?s0\<lparr>squaresState := fmdrop index (squaresState ?s0), renderPending := True\<rparr>)"
          by (rule consistent_forget[OF c0, where k = index]) (use none k in auto)
        then show ?thesis using RemovalTimeout Some True
          by (simp add: removalTimeout_def)
      next
        case False
        then show ?thesis using RemovalTimeout Some
          by (auto simp: removalTimeout_def intro: consistent_cong[OF c0])
      qed
    qed
  next
    case (FadeTimeout index)
    then have k: "?k = index" by simp
    show ?thesis
    proof (cases "fmlookup (squaresState s) index")
      case None
      then show ?thesis using FadeTimeout
        by (auto simp: fadeTimeout_def intro: consistent_cong[OF c0])
    next
      case (Some square)
      have "consistent (?s0\<lparr>squaresState :=
          fmupd index \<lparr>state = Fading, timeoutId = None\<rparr> (squaresState ?s0), renderPending := True\<rparr>)"
        by (rule consistent_forget[OF c0, where k = index]) (use none k in auto)
      then show ?thesis using FadeTimeout Some
        by (simp add: fadeTimeout_def)
    qed
  qed
  show ?thesis
    using Some run c by (simp add: fireTimer_def)
qed

lemma consistent_mount: "consistent mount"
  by (simp add: consistent_def mount_def handleOf_def)

lemma consistent_elapse: "consistent s \<Longrightarrow> consistent (elapse d s)"
  by (simp add: consistent_def elapse_def)

lemma reachable_consistent: "reachable g s \<Longrightarrow> consistent s"
proof (induction rule: reachable.induct)
  case reachable_mount
  show ?case by (rule consistent_mount)
next
  case (reachable_move s shuffle x y r)
  then show ?case by (simp add: consistent_handleMouseMove getNeighbors_distinct)
next
  case (reachable_leave s)
  then show ?case by (simp add: consistent_handleMouseLeave)
next
  case (reachable_fire s t)
  then show ?case by (simp add: consistent_fireTimer)
next
  case (reachable_elapse s d)
  then show ?case by (simp add: consistent_elapse)
next
  case (reachable_render s)
  then show ?case by (simp add: consistent_render)
qed





lemma rendered_handleMouseMove: "rendered s \<Longrightarrow> rendered (handleMouseMove g shuffle r x y s)"
  by (simp add: handleMouseMove_def rendered_def Let_def split: prod.splits)

lemma rendered_fireTimer: "rendered s \<Longrightarrow> rendered (fireTimer t s)"
proof (cases "find (\<lambda>x. tid x = t) (timers s)")
  case None
  then show "rendered s \<Longrightarrow> rendered (fireTimer t s)" by (simp add: fireTimer_def)
next
  case (Some x)
  have "renderPending (runCallback cb s')" for cb s'
    by (cases cb)
       (simp_all add: dwellTimeout_def removalTimeout_def fadeTimeout_def setTimeout_def Let_def
          split: option.splits)
  then show "rendered s \<Longrightarrow> rendered (fireTimer t s)"
    using Some by (simp add: fireTimer_def rendered_def)
qed

lemma rendered_render: "rendered s \<Longrightarrow> rendered (render s)"
  by (simp add: rendered_def render_def cleanupTimeouts_def cleanupTimeouts_timers)

lemma reachable_rendered: "reachable g s \<Longrightarrow> rendered s"
proof (induction rule: reachable.induct)
  case reachable_mount
  show ?case by (simp add: rendered_def mount_def)
next
  case (reachable_move s shuffle x y r)
  then show ?case by (simp add: rendered_handleMouseMove)
next
  case (reachable_leave s)
  then show ?case by (simp add: rendered_def handleMouseLeave_def)
next
  case (reachable_fire s t)
  then show ?case by (simp add: rendered_fireTimer)
next
  case (reachable_elapse s d)
  then show ?case by (simp add: rendered_def elapse_def)
next
  case (reachable_render s)
  then show ?case by (simp add: rendered_render)
qed

lemma floor_div_bounds:
  fixes x w :: real
  assumes "0 \<le> x" and "x < w * real n"
  shows "0 \<le> \<lfloor>x / w\<rfloor> \<and> \<lfloor>x / w\<rfloor> < int n"
proof -
  have pos: "0 < w * real n" using assms by linarith
  have w: "0 < w"
  proof (rule ccontr)
    assume "\<not> 0 < w"
    then have "w * real n \<le> 0" by (simp add: mult_le_0_iff)
    with pos show False by linarith
  qed
  have lo: "0 \<le> x / w" using assms(1) w by simp
  have hi: "x / w < real n" using assms(2) w by (simp add: pos_divide_less_eq mult.commute)
  from lo have "0 \<le> \<lfloor>x / w\<rfloor>" by simp
  moreover from hi have "\<lfloor>x / w\<rfloor> < int n" by (simp add: floor_less_iff)
  ultimately show ?thesis by simp
qed

lemma index_bounds:
  fixes r c H V :: int
  assumes "0 \<le> r" "r < V" "0 \<le> c" "c < H"
  shows "0 \<le> r * H + c \<and> r * H + c < H * V"
proof -
  have H: "0 < H" using assms by linarith
  have "0 \<le> r * H" using assms(1) H by simp
  then have lo: "0 \<le> r * H + c" using assms(3) by linarith
  have "r + 1 \<le> V" using assms(2) by linarith
  then have "(r + 1) * H \<le> V * H" using H by (simp add: mult_right_mono)
  then have "r * H + H \<le> H * V" by (simp add: algebra_simps)
  then have hi: "r * H + c < H * V" using assms(4) by linarith
  from lo hi show ?thesis by simp
qed

section \<open>What the handlers do to one square\<close>

lemma set_objectKeys [simp]: "set (objectKeys m) = fmdom' m"
  by (simp add: objectKeys_def)

lemma distinct_objectKeys [simp]: "distinct (objectKeys m)"
  by (simp add: objectKeys_def)


lemma consistent_pending_recorded:
  assumes "consistent s" and "x \<in> set (timers s)"
  shows "Some (tid x) = handleOf (squaresState s) k \<longleftrightarrow> callbackIndex (callback x) = k"
  using consistentD(3)[OF assms, of k] by auto

lemma consistent_filter_handle:
  assumes "consistent s"
  shows "filter (\<lambda>x. Some (tid x) \<noteq> handleOf (squaresState s) k) (timers s)
       = filter (\<lambda>x. callbackIndex (callback x) \<noteq> k) (timers s)"
  by (rule filter_cong[OF refl]) (simp add: consistent_pending_recorded[OF assms])

lemma length_le_one:
  assumes "distinct (map f xs)" and "\<And>x. x \<in> set xs \<Longrightarrow> f x = c"
  shows "length xs \<le> 1"
proof (cases xs)
  case Nil
  then show ?thesis by simp
next
  case (Cons a ys)
  show ?thesis
  proof (cases ys)
    case Nil
    with Cons show ?thesis by simp
  next
    case (Cons b zs)
    with \<open>xs = a # ys\<close> assms(2)[of a] assms(2)[of b] assms(1) show ?thesis by simp
  qed
qed

lemma consistent_one_pending:
  assumes "consistent s"
  shows "length (pendingFor index s) \<le> 1"
proof (cases "handleOf (squaresState s) index")
  case None
  have "pendingFor index s = []"
    unfolding pendingFor_def filter_empty_conv
    using consistentD(3)[OF assms, of _ index] None by auto
  then show ?thesis by simp
next
  case (Some h)
  show ?thesis
  proof (rule length_le_one[where f = tid and c = h])
    show "distinct (map tid (pendingFor index s))"
      using consistentD(1)[OF assms] by (simp add: pendingFor_def distinct_map_filter)
  next
    fix x assume "x \<in> set (pendingFor index s)"
    then have "x \<in> set (timers s)" "callbackIndex (callback x) = index"
      by (simp_all add: pendingFor_def)
    with consistentD(3)[OF assms, of x index] Some show "tid x = h" by simp
  qed
qed


lemma pendingFor_rearm:
  assumes "consistent s" and "callbackIndex cb = k"
  shows "pendingFor k' (rearm k ph cb d s) =
     (if k' = k then [\<lparr>tid = nextTimerId s, due = now s + d, callback = cb\<rparr>] else pendingFor k' s)"
proof -
  have "filter (\<lambda>x. callbackIndex (callback x) = k') (filter (\<lambda>x. callbackIndex (callback x) \<noteq> k) (timers s))
      = (if k' = k then [] else filter (\<lambda>x. callbackIndex (callback x) = k') (timers s))"
    by (induction "timers s") (auto intro: filter_cong simp: filter_empty_conv)
  then show ?thesis
    using assms(2) by (simp add: pendingFor_def rearm_def consistent_filter_handle[OF assms(1)])
qed

lemma lookup_rearm:
  "fmlookup (squaresState (rearm k ph cb d s)) k' =
     (if k' = k then Some \<lparr>state = ph, timeoutId = Some (nextTimerId s)\<rparr> else fmlookup (squaresState s) k')"
  by (auto simp: rearm_def)

lemma fields_rearm [simp]:
  "now (rearm k ph cb d s) = now s"
  "nextTimerId (rearm k ph cb d s) = Suc (nextTimerId s)"
  "lastSquareRef (rearm k ph cb d s) = lastSquareRef s"
  by (simp_all add: rearm_def)

lemma fold_retrigger_fields:
  "now (fold retrigger xs s) = now s \<and> nextTimerId s \<le> nextTimerId (fold retrigger xs s)"
proof (induction xs arbitrary: s)
  case Nil
  show ?case by simp
next
  case (Cons a xs)
  from Cons[of "retrigger a s"] show ?case by (simp add: retrigger_rearm)
qed

lemma fold_retrigger_other:
  assumes "consistent s" and "index \<notin> set xs"
  shows "pendingFor index (fold retrigger xs s) = pendingFor index s
       \<and> fmlookup (squaresState (fold retrigger xs s)) index = fmlookup (squaresState s) index"
  using assms
proof (induction xs arbitrary: s)
  case Nil
  show ?case by simp
next
  case (Cons a xs)
  from Cons.prems have ne: "index \<noteq> a" and nin: "index \<notin> set xs" by auto
  have c: "consistent (retrigger a s)" using Cons.prems(1) by (rule consistent_retrigger)
  from Cons.IH[OF c nin] ne show ?case
    by (simp add: retrigger_rearm pendingFor_rearm[OF Cons.prems(1)] lookup_rearm)
qed

lemma fold_retrigger_selected:
  assumes "consistent s" and "distinct xs" and "index \<in> set xs"
  shows "\<exists>n\<ge>nextTimerId s.
       pendingFor index (fold retrigger xs s) = [\<lparr>tid = n, due = now s + 400, callback = DwellTimeout index\<rparr>]
     \<and> fmlookup (squaresState (fold retrigger xs s)) index = Some \<lparr>state = Highlighted, timeoutId = Some n\<rparr>"
  using assms
proof (induction xs arbitrary: s)
  case Nil
  then show ?case by simp
next
  case (Cons a xs)
  have c: "consistent (retrigger a s)" using Cons.prems(1) by (rule consistent_retrigger)
  show ?case
  proof (cases "index = a")
    case True
    with Cons.prems(2) have nin: "index \<notin> set xs" by simp
    from fold_retrigger_other[OF c nin] True
    have "pendingFor index (fold retrigger (a # xs) s)
          = [\<lparr>tid = nextTimerId s, due = now s + 400, callback = DwellTimeout index\<rparr>]
        \<and> fmlookup (squaresState (fold retrigger (a # xs) s)) index
          = Some \<lparr>state = Highlighted, timeoutId = Some (nextTimerId s)\<rparr>"
      by (simp add: retrigger_rearm pendingFor_rearm[OF Cons.prems(1)] lookup_rearm)
    then show ?thesis by blast
  next
    case False
    with Cons.prems have d: "distinct xs" and i: "index \<in> set xs" by auto
    from Cons.IH[OF c d i] obtain n where n: "nextTimerId (retrigger a s) \<le> n"
      and p: "pendingFor index (fold retrigger xs (retrigger a s))
          = [\<lparr>tid = n, due = now (retrigger a s) + 400, callback = DwellTimeout index\<rparr>]"
      and l: "fmlookup (squaresState (fold retrigger xs (retrigger a s))) index
          = Some \<lparr>state = Highlighted, timeoutId = Some n\<rparr>"
      by blast
    have "nextTimerId s \<le> n" using n by (simp add: retrigger_rearm)
    moreover have "now (retrigger a s) = now s" by (simp add: retrigger_rearm)
    ultimately show ?thesis using p l by auto
  qed
qed

lemma handleMouseMove_selected:
  assumes c: "consistent s"
    and perm: "mset (shuffle (getNeighbors g x y)) = mset (getNeighbors g x y)"
    and new: "Some (currentSquare g x y) \<noteq> lastSquareRef s"
    and sel: "index \<in> set (randomNeighbors g shuffle r x y)"
  shows "\<exists>n\<ge>nextTimerId s.
       pendingFor index (handleMouseMove g shuffle r x y s)
         = [\<lparr>tid = n, due = now s + 400, callback = DwellTimeout index\<rparr>]
     \<and> fmlookup (squaresState (handleMouseMove g shuffle r x y s)) index
         = Some \<lparr>state = Highlighted, timeoutId = Some n\<rparr>"
proof -
  let ?s0 = "s\<lparr>lastSquareRef := Some (currentSquare g x y)\<rparr>"
  have d: "distinct (randomNeighbors g shuffle r x y)"
    by (rule distinct_randomNeighbors[of shuffle g x y, OF perm getNeighbors_distinct])
  have c0: "consistent ?s0" by (rule consistent_cong[OF c]) simp_all
  from fold_retrigger_selected[OF c0 d sel]
  show ?thesis
    unfolding handleMouseMove_retrigger[OF new d] by (simp add: pendingFor_def)
qed

lemma fadeSquare_now [simp]: "now (fadeSquare key s) = now s"
  by (simp add: fadeSquare_cases split: option.splits)

lemma fold_fadeSquare_now [simp]: "now (fold fadeSquare ks s) = now s"
  by (induction ks arbitrary: s) simp_all

lemma fadeSquare_lastSquareRef [simp]: "lastSquareRef (fadeSquare key s) = lastSquareRef s"
  by (simp add: fadeSquare_cases split: option.splits)

lemma fadeSquare_other:
  assumes "consistent s" and "k \<noteq> key"
  shows "pendingFor k (fadeSquare key s) = pendingFor k s
       \<and> fmlookup (squaresState (fadeSquare key s)) k = fmlookup (squaresState s) k"
proof (cases "fmlookup (squaresState s) key")
  case None
  then show ?thesis by (simp add: fadeSquare_cases)
next
  case (Some square)
  have "filter (\<lambda>x. callbackIndex (callback x) = k) (filter (\<lambda>x. callbackIndex (callback x) \<noteq> key) (timers s))
      = filter (\<lambda>x. callbackIndex (callback x) = k) (timers s)"
    using assms(2) by (induction "timers s") (auto intro: filter_cong)
  then have f: "pendingFor k (s\<lparr>timers := filter (\<lambda>x. Some (tid x) \<noteq> handleOf (squaresState s) key) (timers s)\<rparr>)
      = pendingFor k s"
    by (simp add: consistent_filter_handle[OF assms(1)] pendingFor_def)
  show ?thesis
  proof (cases "state square = Highlighted")
    case True
    then show ?thesis
      using Some assms(2) by (simp add: fadeSquare_cases pendingFor_rearm[OF assms(1)] lookup_rearm)
  next
    case False
    then show ?thesis
      using Some f by (simp add: fadeSquare_cases)
  qed
qed


lemma fadeSquare_fading:
  assumes "consistent s" and "fmlookup (squaresState s) key = Some square" and "state square = Fading"
  shows "pendingFor key (fadeSquare key s) = []
       \<and> fmlookup (squaresState (fadeSquare key s)) key = Some square"
  using assms(2,3)
  by (simp add: fadeSquare_cases consistent_filter_handle[OF assms(1)] pendingFor_def filter_empty_conv)

lemma fold_fadeSquare_other:
  assumes "consistent s" and "k \<notin> set ks"
  shows "pendingFor k (fold fadeSquare ks s) = pendingFor k s
       \<and> fmlookup (squaresState (fold fadeSquare ks s)) k = fmlookup (squaresState s) k"
  using assms
proof (induction ks arbitrary: s)
  case Nil
  show ?case by simp
next
  case (Cons a ks)
  from Cons.prems have ne: "k \<noteq> a" and nin: "k \<notin> set ks" by auto
  have c: "consistent (fadeSquare a s)" using Cons.prems(1) by (rule consistent_fadeSquare)
  from Cons.IH[OF c nin] fadeSquare_other[OF Cons.prems(1) ne] show ?case by simp
qed


lemma fold_fadeSquare_fading:
  assumes "consistent s" and "distinct ks" and "k \<in> set ks"
    and "fmlookup (squaresState s) k = Some square" and "state square = Fading"
  shows "pendingFor k (fold fadeSquare ks s) = []
     \<and> fmlookup (squaresState (fold fadeSquare ks s)) k = Some square"
  using assms
proof (induction ks arbitrary: s)
  case Nil
  then show ?case by simp
next
  case (Cons a ks)
  have c: "consistent (fadeSquare a s)" using Cons.prems(1) by (rule consistent_fadeSquare)
  show ?case
  proof (cases "k = a")
    case True
    with Cons.prems(2) have nin: "k \<notin> set ks" by simp
    from fold_fadeSquare_other[OF c nin] fadeSquare_fading[OF Cons.prems(1), of k square] Cons.prems(4,5) True
    show ?thesis by simp
  next
    case False
    with Cons.prems have d: "distinct ks" and i: "k \<in> set ks" by auto
    have l: "fmlookup (squaresState (fadeSquare a s)) k = Some square"
      using fadeSquare_other[OF Cons.prems(1) False] Cons.prems(4) by simp
    from Cons.IH[OF c d i l Cons.prems(5)] show ?thesis by simp
  qed
qed


lemma handleMouseLeave_fading:
  assumes "consistent s" and "fmlookup (squaresState s) k = Some square" and "state square = Fading"
  shows "pendingFor k (handleMouseLeave s) = []
     \<and> fmlookup (squaresState (handleMouseLeave s)) k = Some square"
proof -
  have k: "k \<in> set (objectKeys (squaresState s))" using assms(2) by (simp add: fmdom'I)
  from fold_fadeSquare_fading[OF assms(1) distinct_objectKeys k assms(2,3)]
  show ?thesis by (simp add: handleMouseLeave_def pendingFor_def)
qed


lemma unmount_rendered:
  assumes "consistent s" and "effectSquares s = squaresState s"
  shows "timers (unmount s) = []"
proof -
  have "\<exists>k\<in>fmdom' (squaresState s). Some (tid x) = handleOf (squaresState s) k"
    if "x \<in> set (timers s)" for x
  proof -
    let ?k = "callbackIndex (callback x)"
    have h: "handleOf (squaresState s) ?k = Some (tid x)"
      using consistentD(3)[OF assms(1) that, of ?k] by simp
    then have "?k \<in> fmdom' (squaresState s)"
      by (auto simp: handleOf_def fmdom'I split: option.splits)
    with h[symmetric] show ?thesis by blast
  qed
  then show ?thesis
    by (auto simp: unmount_def cleanupTimeouts_def cleanupTimeouts_timers assms(2) filter_empty_conv)
qed

lemma unmount_recorded:
  assumes "handleOf (effectSquares s) k = Some t"
  shows "t \<notin> tid ` set (timers (unmount s))"
proof -
  have "k \<in> fmdom' (effectSquares s)"
    using assms by (auto simp: handleOf_def fmdom'I split: option.splits)
  then show ?thesis
    using assms by (auto simp: unmount_def cleanupTimeouts_def cleanupTimeouts_timers)
qed

text \<open>
  A render after a change of state cancels every timer whose handle the mapping of the
  previous render records, also the timers of squares that the change did not touch.
\<close>

lemma render_cancels_recorded:
  assumes "renderPending s" and "handleOf (effectSquares s) k = Some t"
  shows "t \<notin> tid ` set (timers (render s))"
proof -
  have "k \<in> fmdom' (effectSquares s)"
    using assms(2) by (auto simp: handleOf_def fmdom'I split: option.splits)
  then show ?thesis
    using assms by (auto simp: render_def cleanupTimeouts_def cleanupTimeouts_timers)
qed

section \<open>Evaluation of concrete runs\<close>

text \<open>
  The states of some runs on the two small grids, with the sort leaving the neighbour
  list as it is (\<open>id\<close>) and \<open>0\<close> for the random number of the slice.
\<close>

lemmas run_defs = handleMouseMove_def randomNeighbors_def slice0_def getNeighbors_def
  currentSquare_def highlightSquare_def clearSquareTimeout_def setTimeout_def clearTimeout_def
  mount_def render_def cleanupTimeouts_def objectKeys_def elapse_def fireTimer_def
  dwellTimeout_def removalTimeout_def handleMouseLeave_def fadeSquare_def pendingFor_def
  unmount_def Let_def

lemma move_grid21:
  "handleMouseMove grid21 id 0 5 5 mount =
     \<lparr>squaresState = fmupd 1 \<lparr>state = Highlighted, timeoutId = Some 1\<rparr> fmempty,
      lastSquareRef = Some 0,
      timers = [\<lparr>tid = 1, due = 400, callback = DwellTimeout 1\<rparr>],
      nextTimerId = 2, now = 0, effectSquares = fmempty, renderPending = True\<rparr>"
  by (simp add: run_defs grid21_def)



lemma render_move_grid21:
  "render (handleMouseMove grid21 id 0 5 5 mount) =
     \<lparr>squaresState = fmupd 1 \<lparr>state = Highlighted, timeoutId = Some 1\<rparr> fmempty,
      lastSquareRef = Some 0,
      timers = [\<lparr>tid = 1, due = 400, callback = DwellTimeout 1\<rparr>],
      nextTimerId = 2, now = 0,
      effectSquares = fmupd 1 \<lparr>state = Highlighted, timeoutId = Some 1\<rparr> fmempty,
      renderPending = False\<rparr>"
  unfolding move_grid21
  by (simp add: render_def cleanupTimeouts_def objectKeys_def)

lemma move_grid33:
  "render (handleMouseMove grid33 id 0 15 15 mount) =
     \<lparr>squaresState = fmupd 3 \<lparr>state = Highlighted, timeoutId = Some 4\<rparr>
                      (fmupd 2 \<lparr>state = Highlighted, timeoutId = Some 3\<rparr>
                      (fmupd 1 \<lparr>state = Highlighted, timeoutId = Some 2\<rparr>
                      (fmupd 0 \<lparr>state = Highlighted, timeoutId = Some 1\<rparr> fmempty))),
      lastSquareRef = Some 4,
      timers = [\<lparr>tid = 1, due = 400, callback = DwellTimeout 0\<rparr>,
                \<lparr>tid = 2, due = 400, callback = DwellTimeout 1\<rparr>,
                \<lparr>tid = 3, due = 400, callback = DwellTimeout 2\<rparr>,
                \<lparr>tid = 4, due = 400, callback = DwellTimeout 3\<rparr>],
      nextTimerId = 5, now = 0,
      effectSquares = fmupd 3 \<lparr>state = Highlighted, timeoutId = Some 4\<rparr>
                      (fmupd 2 \<lparr>state = Highlighted, timeoutId = Some 3\<rparr>
                      (fmupd 1 \<lparr>state = Highlighted, timeoutId = Some 2\<rparr>
                      (fmupd 0 \<lparr>state = Highlighted, timeoutId = Some 1\<rparr> fmempty))),
      renderPending = False\<rparr>"
  by (simp add: run_defs grid33_def del: One_nat_def)

lemma move_grid33_again:
  "handleMouseMove grid33 id 0 25 15 (elapse 100 (render (handleMouseMove grid33 id 0 15 15 mount))) =
     \<lparr>squaresState = fmupd 7 \<lparr>state = Highlighted, timeoutId = Some 8\<rparr>
                      (fmupd 4 \<lparr>state = Highlighted, timeoutId = Some 7\<rparr>
                      (fmupd 2 \<lparr>state = Highlighted, timeoutId = Some 6\<rparr>
                      (fmupd 1 \<lparr>state = Highlighted, timeoutId = Some 5\<rparr>
                      (fmupd 3 \<lparr>state = Highlighted, timeoutId = Some 4\<rparr>
                      (fmupd 2 \<lparr>state = Highlighted, timeoutId = Some 3\<rparr>
                      (fmupd 1 \<lparr>state = Highlighted, timeoutId = Some 2\<rparr>
                      (fmupd 0 \<lparr>state = Highlighted, timeoutId = Some 1\<rparr> fmempty))))))),
      lastSquareRef = Some 5,
      timers = [\<lparr>tid = 1, due = 400, callback = DwellTimeout 0\<rparr>,
                \<lparr>tid = 4, due = 400, callback = DwellTimeout 3\<rparr>,
                \<lparr>tid = 5, due = 500, callback = DwellTimeout 1\<rparr>,
                \<lparr>tid = 6, due = 500, callback = DwellTimeout 2\<rparr>,
                \<lparr>tid = 7, due = 500, callback = DwellTimeout 4\<rparr>,
                \<lparr>tid = 8, due = 500, callback = DwellTimeout 7\<rparr>],
      nextTimerId = 9, now = 100,
      effectSquares = fmupd 3 \<lparr>state = Highlighted, timeoutId = Some 4\<rparr>
                      (fmupd 2 \<lparr>state = Highlighted, timeoutId = Some 3\<rparr>
                      (fmupd 1 \<lparr>state = Highlighted, timeoutId = Some 2\<rparr>
                      (fmupd 0 \<lparr>state = Highlighted, timeoutId = Some 1\<rparr> fmempty))),
      renderPending = True\<rparr>"
  unfolding move_grid33
  by (simp add: handleMouseMove_def randomNeighbors_def slice0_def getNeighbors_def
      currentSquare_def highlightSquare_def clearSquareTimeout_def setTimeout_def clearTimeout_def
      elapse_def Let_def grid33_def del: One_nat_def)

lemma rerender_grid33:
  "elapse 300 (render (handleMouseMove grid33 id 0 25 15
      (elapse 100 (render (handleMouseMove grid33 id 0 15 15 mount))))) =
     \<lparr>squaresState = fmupd 7 \<lparr>state = Highlighted, timeoutId = Some 8\<rparr>
                      (fmupd 4 \<lparr>state = Highlighted, timeoutId = Some 7\<rparr>
                      (fmupd 2 \<lparr>state = Highlighted, timeoutId = Some 6\<rparr>
                      (fmupd 1 \<lparr>state = Highlighted, timeoutId = Some 5\<rparr>
                      (fmupd 3 \<lparr>state = Highlighted, timeoutId = Some 4\<rparr>
                      (fmupd 2 \<lparr>state = Highlighted, timeoutId = Some 3\<rparr>
                      (fmupd 1 \<lparr>state = Highlighted, timeoutId = Some 2\<rparr>
                      (fmupd 0 \<lparr>state = Highlighted, timeoutId = Some 1\<rparr> fmempty))))))),
      lastSquareRef = Some 5,
      timers = [\<lparr>tid = 5, due = 500, callback = DwellTimeout 1\<rparr>,
                \<lparr>tid = 6, due = 500, callback = DwellTimeout 2\<rparr>,
                \<lparr>tid = 7, due = 500, callback = DwellTimeout 4\<rparr>,
                \<lparr>tid = 8, due = 500, callback = DwellTimeout 7\<rparr>],
      nextTimerId = 9, now = 400,
      effectSquares = fmupd 7 \<lparr>state = Highlighted, timeoutId = Some 8\<rparr>
                      (fmupd 4 \<lparr>state = Highlighted, timeoutId = Some 7\<rparr>
                      (fmupd 2 \<lparr>state = Highlighted, timeoutId = Some 6\<rparr>
                      (fmupd 1 \<lparr>state = Highlighted, timeoutId = Some 5\<rparr>
                      (fmupd 3 \<lparr>state = Highlighted, timeoutId = Some 4\<rparr>
                      (fmupd 2 \<lparr>state = Highlighted, timeoutId = Some 3\<rparr>
                      (fmupd 1 \<lparr>state = Highlighted, timeoutId = Some 2\<rparr>
                      (fmupd 0 \<lparr>state = Highlighted, timeoutId = Some 1\<rparr> fmempty))))))),
      renderPending = False\<rparr>"
  unfolding move_grid33_again
  by (simp add: render_def cleanupTimeouts_def objectKeys_def clearSquareTimeout_def clearTimeout_def
      elapse_def del: One_nat_def)

lemma fire_grid21:
  "render (fireTimer 1 (elapse 400 (render (handleMouseMove grid21 id 0 5 5 mount)))) =
     \<lparr>squaresState = fmupd 1 \<lparr>state = Fading, timeoutId = Some 2\<rparr>
                       (fmupd 1 \<lparr>state = Highlighted, timeoutId = Some 1\<rparr> fmempty),
      lastSquareRef = Some 0,
      timers = [\<lparr>tid = 2, due = 900, callback = RemovalTimeout 1\<rparr>],
      nextTimerId = 3, now = 400,
      effectSquares = fmupd 1 \<lparr>state = Fading, timeoutId = Some 2\<rparr>
                       (fmupd 1 \<lparr>state = Highlighted, timeoutId = Some 1\<rparr> fmempty),
      renderPending = False\<rparr>"
  unfolding render_move_grid21
  by (simp add: render_def cleanupTimeouts_def objectKeys_def clearSquareTimeout_def clearTimeout_def
      elapse_def fireTimer_def dwellTimeout_def setTimeout_def Let_def del: One_nat_def)

text \<open>
  The scenario of the specification on the grid of 2 by 1 squares: the pointer enters
  square 0, square 1 is \<open>Highlighted\<close>; when nothing else happens, it is \<open>Fading\<close> once
  its dwell timer has fired at time 400 and has no entry once its removal timer has fired
  at time 900.
\<close>

lemma lifecycle_grid21:
  "fmlookup (squaresState (render (handleMouseMove grid21 id 0 5 5 mount))) 1
     = Some \<lparr>state = Highlighted, timeoutId = Some 1\<rparr>
   \<and> fmlookup (squaresState (render (fireTimer 1 (elapse 400
        (render (handleMouseMove grid21 id 0 5 5 mount)))))) 1
     = Some \<lparr>state = Fading, timeoutId = Some 2\<rparr>
   \<and> fmlookup (squaresState (render (fireTimer 2 (elapse 500 (render (fireTimer 1 (elapse 400
        (render (handleMouseMove grid21 id 0 5 5 mount))))))))) 1 = None
   \<and> timers (render (fireTimer 2 (elapse 500 (render (fireTimer 1 (elapse 400
        (render (handleMouseMove grid21 id 0 5 5 mount)))))))) = []"
proof -
  have a: "fmlookup (squaresState (render (handleMouseMove grid21 id 0 5 5 mount))) 1
     = Some \<lparr>state = Highlighted, timeoutId = Some 1\<rparr>"
    unfolding render_move_grid21 by simp
  show ?thesis
    unfolding fire_grid21 using a
    by (simp add: render_def cleanupTimeouts_def objectKeys_def clearSquareTimeout_def
        clearTimeout_def elapse_def fireTimer_def removalTimeout_def Let_def del: One_nat_def)
qed

section \<open>The updaters in React's queue\<close>

text \<open>
  The handlers of the component are the events below when no update is waiting for a
  render: then React runs the updater at once.
\<close>

lemma handleMouseMove_moveUpdater:
  "handleMouseMove g shuffle r x y s =
     (if Some (currentSquare g x y) = lastSquareRef s then s
      else moveUpdater (randomNeighbors g shuffle r x y) (s\<lparr>lastSquareRef := Some (currentSquare g x y)\<rparr>))"
  by (simp add: handleMouseMove_def moveUpdater_def Let_def)

lemma handleMouseLeave_leaveUpdater:
  "handleMouseLeave s = (leaveUpdater s)\<lparr>lastSquareRef := None\<rparr>"
  by (simp add: handleMouseLeave_def leaveUpdater_def)

lemma onMouseMove_at_once:
  assumes "\<not> renderPending (current f)"
  shows "onMouseMove g shuffle r x y f = f\<lparr>current := handleMouseMove g shuffle r x y (current f)\<rparr>"
  using assms by (simp add: onMouseMove_def setSquaresState_def handleMouseMove_moveUpdater)

lemma onMouseLeave_at_once:
  assumes "\<not> renderPending (current f)"
  shows "onMouseLeave f = f\<lparr>current := handleMouseLeave (current f)\<rparr>"
  using assms by (simp add: onMouseLeave_def setSquaresState_def handleMouseLeave_leaveUpdater Let_def)

lemma onTimeout_at_once:
  assumes "\<not> renderPending (current f)"
  shows "onTimeout t f = f\<lparr>current := fireTimer t (current f)\<rparr>"
  using assms by (simp add: onTimeout_def setSquaresState_def fireTimer_def split: option.splits)

lemma renderFiber_at_once:
  assumes "updateQueue f = []"
  shows "renderFiber f = f\<lparr>current := render (current f)\<rparr>"
  using assms by (simp add: renderFiber_def)

text \<open>
  A run on a grid of 3 by 1 squares in which an updater waits in the queue.  At time 0 the
  pointer enters square 0, which highlights square 1 (dwell timer 1, due at 400), and
  React renders.  At time 399 the pointer enters square 1: no update is waiting, the
  updater runs at once and highlights squares 0 and 2.  Before React renders, the pointer
  enters square 2: the updater, which selects square 1, is queued.  At time 400, still
  before the render, timer 1 fires and its updater is queued behind it.  Then React
  renders.
\<close>

lemma race1:
  "renderFiber (onMouseMove grid31 id 0 5 5 mountFiber) =
     \<lparr>current = \<lparr>squaresState = fmupd 1 \<lparr>state = Highlighted, timeoutId = Some 1\<rparr> fmempty,
        lastSquareRef = Some 0,
        timers = [\<lparr>tid = 1, due = 400, callback = DwellTimeout 1\<rparr>],
        nextTimerId = 2, now = 0,
        effectSquares = fmupd 1 \<lparr>state = Highlighted, timeoutId = Some 1\<rparr> fmempty,
        renderPending = False\<rparr>,
      updateQueue = []\<rparr>"
  by (simp add: renderFiber_def onMouseMove_def setSquaresState_def mountFiber_def moveUpdater_def
      randomNeighbors_def slice0_def getNeighbors_def currentSquare_def highlightSquare_def
      clearSquareTimeout_def setTimeout_def clearTimeout_def mount_def render_def cleanupTimeouts_def
      objectKeys_def Let_def grid31_def del: One_nat_def)

lemma race2:
  "onMouseMove grid31 id 0 15 5 (wait 399 (renderFiber (onMouseMove grid31 id 0 5 5 mountFiber))) =
     \<lparr>current = \<lparr>squaresState = fmupd 2 \<lparr>state = Highlighted, timeoutId = Some 3\<rparr>
                       (fmupd 0 \<lparr>state = Highlighted, timeoutId = Some 2\<rparr>
                       (fmupd 1 \<lparr>state = Highlighted, timeoutId = Some 1\<rparr> fmempty)),
        lastSquareRef = Some 1,
        timers = [\<lparr>tid = 1, due = 400, callback = DwellTimeout 1\<rparr>,
                  \<lparr>tid = 2, due = 799, callback = DwellTimeout 0\<rparr>,
                  \<lparr>tid = 3, due = 799, callback = DwellTimeout 2\<rparr>],
        nextTimerId = 4, now = 399,
        effectSquares = fmupd 1 \<lparr>state = Highlighted, timeoutId = Some 1\<rparr> fmempty,
        renderPending = True\<rparr>,
      updateQueue = []\<rparr>"
  unfolding race1
  by (simp add: onMouseMove_def setSquaresState_def moveUpdater_def wait_def elapse_def
      randomNeighbors_def slice0_def getNeighbors_def currentSquare_def highlightSquare_def
      clearSquareTimeout_def setTimeout_def clearTimeout_def Let_def grid31_def del: One_nat_def)

lemma race3:
  "onTimeout 1 (wait 1 (onMouseMove grid31 id 0 25 5
      (onMouseMove grid31 id 0 15 5 (wait 399 (renderFiber (onMouseMove grid31 id 0 5 5 mountFiber)))))) =
     \<lparr>current = \<lparr>squaresState = fmupd 2 \<lparr>state = Highlighted, timeoutId = Some 3\<rparr>
                       (fmupd 0 \<lparr>state = Highlighted, timeoutId = Some 2\<rparr>
                       (fmupd 1 \<lparr>state = Highlighted, timeoutId = Some 1\<rparr> fmempty)),
        lastSquareRef = Some 2,
        timers = [\<lparr>tid = 2, due = 799, callback = DwellTimeout 0\<rparr>,
                  \<lparr>tid = 3, due = 799, callback = DwellTimeout 2\<rparr>],
        nextTimerId = 4, now = 400,
        effectSquares = fmupd 1 \<lparr>state = Highlighted, timeoutId = Some 1\<rparr> fmempty,
        renderPending = True\<rparr>,
      updateQueue = [Move [1], Timeout (DwellTimeout 1)]\<rparr>"
  unfolding race2
  by (simp add: onMouseMove_def onTimeout_def setSquaresState_def wait_def elapse_def
      randomNeighbors_def slice0_def getNeighbors_def currentSquare_def Let_def grid31_def
      del: One_nat_def)

lemma race4:
  "renderFiber (onTimeout 1 (wait 1 (onMouseMove grid31 id 0 25 5
      (onMouseMove grid31 id 0 15 5 (wait 399 (renderFiber (onMouseMove grid31 id 0 5 5 mountFiber))))))) =
     \<lparr>current = \<lparr>squaresState = fmupd 1 \<lparr>state = Fading, timeoutId = Some 5\<rparr>
                       (fmupd 2 \<lparr>state = Highlighted, timeoutId = Some 3\<rparr>
                       (fmupd 0 \<lparr>state = Highlighted, timeoutId = Some 2\<rparr>
                       (fmupd 1 \<lparr>state = Highlighted, timeoutId = Some 1\<rparr> fmempty)) ++\<^sub>f
                        fmupd 1 \<lparr>state = Highlighted, timeoutId = Some 4\<rparr> fmempty),
        lastSquareRef = Some 2,
        timers = [\<lparr>tid = 2, due = 799, callback = DwellTimeout 0\<rparr>,
                  \<lparr>tid = 3, due = 799, callback = DwellTimeout 2\<rparr>,
                  \<lparr>tid = 4, due = 800, callback = DwellTimeout 1\<rparr>,
                  \<lparr>tid = 5, due = 900, callback = RemovalTimeout 1\<rparr>],
        nextTimerId = 6, now = 400,
        effectSquares = fmupd 1 \<lparr>state = Fading, timeoutId = Some 5\<rparr>
                       (fmupd 2 \<lparr>state = Highlighted, timeoutId = Some 3\<rparr>
                       (fmupd 0 \<lparr>state = Highlighted, timeoutId = Some 2\<rparr>
                       (fmupd 1 \<lparr>state = Highlighted, timeoutId = Some 1\<rparr> fmempty)) ++\<^sub>f
                        fmupd 1 \<lparr>state = Highlighted, timeoutId = Some 4\<rparr> fmempty),
        renderPending = False\<rparr>,
      updateQueue = []\<rparr>"
  unfolding race3
  by (simp add: renderFiber_def moveUpdater_def dwellTimeout_def highlightSquare_def
      clearSquareTimeout_def setTimeout_def clearTimeout_def render_def cleanupTimeouts_def
      objectKeys_def Let_def del: One_nat_def)

section \<open>Rounding to a double\<close>



lemma roundTiesToEven_nearest:
  assumes "\<bar>m - of_int n\<bar> < 1 / 2"
  shows "roundTiesToEven m = n"
proof -
  consider "of_int n \<le> m" | "m < of_int n" by linarith
  then show ?thesis
  proof cases
    case 1
    then have "\<lfloor>m\<rfloor> = n" using assms by linarith
    then show ?thesis using assms 1 by (simp add: roundTiesToEven_def)
  next
    case 2
    then have f: "\<lfloor>m\<rfloor> = n - 1" using assms by linarith
    have "1 / 2 < m - of_int (n - 1)" using assms 2 by simp
    then show ?thesis using f by (simp add: roundTiesToEven_def)
  qed
qed

lemma roundTiesToEven_of_int [simp]: "roundTiesToEven (of_int n) = n"
  by (rule roundTiesToEven_nearest) simp




lemma ulp_small:
  assumes "0 < q" "q < 2 ^ 53"
  shows "\<exists>k::nat. ulp q = 1 / 2 ^ k"
proof -
  have "q < 2 powr 53"
    using assms(2) powr_realpow[of 2 53] by simp
  then have "log 2 q < 53"
    using assms(1) by (simp add: log_less_iff)
  then have "\<lfloor>log 2 q\<rfloor> \<le> 52" by linarith
  then have e: "binade q \<le> 52" using assms(1) by (simp add: binade_def)
  define k where "k = nat (52 - binade q)"
  have "binade q - 52 = - int k" using e by (simp add: k_def)
  then have "ulp q = power_int 2 (- int k)" by (simp only: ulp_def)
  also have "\<dots> = 1 / 2 ^ k"
    by (simp add: power_int_minus divide_inverse)
  finally show ?thesis by blast
qed


lemma roundDouble_of_nat:
  assumes "n < 2 ^ 53"
  shows "roundDouble (real n) = Finite (real n)"
proof (cases "n = 0")
  case True
  then show ?thesis by (simp add: roundDouble_def)
next
  case False
  then have pos: "0 < real n" by simp
  have n53: "real n < 2 ^ 53"
    using assms by (metis of_nat_less_iff of_nat_numeral of_nat_power)
  from ulp_small[OF pos this] obtain k :: nat where u: "ulp (real n) = 1 / 2 ^ k" by blast
  have "real n / ulp (real n) = of_int (int n * 2 ^ k)" by (simp add: u)
  then have r: "roundTiesToEven (real n / ulp (real n)) = int n * 2 ^ k"
    by (simp only: roundTiesToEven_of_int)
  have v: "ulp (real n) * of_int (roundTiesToEven (real n / ulp (real n))) = real n"
    unfolding r by (simp add: u)
  have "(2::real) ^ 53 \<le> 2 ^ 1024" by (rule power_increasing) simp_all
  then have "\<not> 2 ^ 1024 \<le> \<bar>real n\<bar>" using n53 by linarith
  then show ?thesis
    using False by (simp add: roundDouble_def Let_def v)
qed














text \<open>
  When the two quotients of a position inside the bounding box are doubles, no operation of
  line 80 rounds, and the index is the one of the exact quotients, which is in range.
\<close>

lemma currentSquare_number_exact:
  assumes "0 \<le> x" and "x < width g * real (horizontal g)"
    and "0 \<le> y" and "y < height g * real (vertical g)"
    and "(vertical g + 1) * horizontal g < 2 ^ 53"
    and "roundDouble (x / width g) = Finite (x / width g)"
    and "roundDouble (y / height g) = Finite (y / height g)"
  shows "currentSquare_number g x y = Finite (real_of_int (currentSquare g x y))
    \<and> 0 \<le> currentSquare g x y
    \<and> currentSquare g x y < int (horizontal g) * int (vertical g)"
proof -
  from floor_div_bounds[OF assms(1,2)]
  have col: "0 \<le> \<lfloor>x / width g\<rfloor>" "\<lfloor>x / width g\<rfloor> < int (horizontal g)" by simp_all
  from floor_div_bounds[OF assms(3,4)]
  have row: "0 \<le> \<lfloor>y / height g\<rfloor>" "\<lfloor>y / height g\<rfloor> < int (vertical g)" by simp_all
  from index_bounds[OF row col]
  have range: "0 \<le> currentSquare g x y \<and> currentSquare g x y < int (horizontal g) * int (vertical g)"
    unfolding currentSquare_def .
  have w: "width g \<noteq> 0"
  proof
    assume "width g = 0"
    with assms(1,2) show False by simp
  qed
  have h: "height g \<noteq> 0"
  proof
    assume "height g = 0"
    with assms(3,4) show False by simp
  qed
  define c where "c = nat \<lfloor>x / width g\<rfloor>"
  define r where "r = nat \<lfloor>y / height g\<rfloor>"
  have ci: "\<lfloor>x / width g\<rfloor> = int c" using col(1) by (simp only: c_def int_nat_eq if_True)
  have ri: "\<lfloor>y / height g\<rfloor> = int r" using row(1) by (simp only: r_def int_nat_eq if_True)
  have c: "real_of_int \<lfloor>x / width g\<rfloor> = real c" "c < horizontal g"
    using col(2) unfolding ci by simp_all
  have r: "real_of_int \<lfloor>y / height g\<rfloor> = real r" "r < vertical g"
    using row(2) unfolding ri by simp_all
  have fc: "Math_floor (divide_number x (width g)) = Finite (real c)"
    using w assms(6) c(1) by (simp add: divide_number_def)
  have fr: "Math_floor (divide_number y (height g)) = Finite (real r)"
    using h assms(7) r(1) by (simp add: divide_number_def)
  have "r * horizontal g \<le> vertical g * horizontal g"
    using r(2) by (intro mult_le_mono1) simp
  then have le: "r * horizontal g + c \<le> vertical g * horizontal g + horizontal g"
    using c(2) by (intro add_le_mono) simp_all
  have "vertical g * horizontal g + horizontal g < 2 ^ 53"
    using assms(5) by (simp add: algebra_simps)
  with le have b1: "r * horizontal g + c < 2 ^ 53" by (rule le_less_trans)
  have "r * horizontal g \<le> r * horizontal g + c" by simp
  then have b0: "r * horizontal g < 2 ^ 53" using b1 by (rule le_less_trans)
  have t: "times_number (Finite (real r)) (Finite (real (horizontal g))) = Finite (real (r * horizontal g))"
    using roundDouble_of_nat[OF b0] by simp
  have p: "plus_number (Finite (real (r * horizontal g))) (Finite (real c))
      = Finite (real (r * horizontal g + c))"
    using roundDouble_of_nat[OF b1] by simp
  have "currentSquare_number g x y = Finite (real (r * horizontal g + c))"
    by (simp only: currentSquare_number_def fr fc t p)
  also have "real (r * horizontal g + c) = real_of_int (currentSquare g x y)"
    unfolding currentSquare_def ci ri by simp
  finally show ?thesis using range by simp
qed

section \<open>The component whose updaters run at once\<close>

text \<open>
  In every state that the component reaches when each updater runs as soon as it is passed
  to \<^verbatim>\<open>setSquaresState\<close>, each square has at most one pending timer.  When the
  mouse-move handler runs its loop and selects a square, then afterwards the only pending
  timer of that square is a new dwell timer, due 400 time units after the current time,
  whose handle is recorded in a \<open>Highlighted\<close> entry and is newer than the handle the
  square had before.
\<close>

lemma reachable_one_pending_timer:
  assumes "reachable g s"
  shows "(\<forall>index. length (pendingFor index s) \<le> 1)
    \<and> (\<forall>shuffle r x y index.
          mset (shuffle (getNeighbors g x y)) = mset (getNeighbors g x y) \<longrightarrow>
          Some (currentSquare g x y) \<noteq> lastSquareRef s \<longrightarrow>
          index \<in> set (randomNeighbors g shuffle r x y) \<longrightarrow>
          (\<exists>n\<ge>nextTimerId s.
              pendingFor index (handleMouseMove g shuffle r x y s)
                = [\<lparr>tid = n, due = now s + 400, callback = DwellTimeout index\<rparr>]
            \<and> fmlookup (squaresState (handleMouseMove g shuffle r x y s)) index
                = Some \<lparr>state = Highlighted, timeoutId = Some n\<rparr>
            \<and> (\<forall>t. handleOf (squaresState s) index = Some t \<longrightarrow> t < n)))"
proof -
  have c: "consistent s" using assms by (rule reachable_consistent)
  have one: "\<forall>index. length (pendingFor index s) \<le> 1"
    using consistent_one_pending[OF c] by simp
  have re: "\<exists>n\<ge>nextTimerId s.
              pendingFor index (handleMouseMove g shuffle r x y s)
                = [\<lparr>tid = n, due = now s + 400, callback = DwellTimeout index\<rparr>]
            \<and> fmlookup (squaresState (handleMouseMove g shuffle r x y s)) index
                = Some \<lparr>state = Highlighted, timeoutId = Some n\<rparr>
            \<and> (\<forall>t. handleOf (squaresState s) index = Some t \<longrightarrow> t < n)"
    if "mset (shuffle (getNeighbors g x y)) = mset (getNeighbors g x y)"
      and "Some (currentSquare g x y) \<noteq> lastSquareRef s"
      and "index \<in> set (randomNeighbors g shuffle r x y)"
    for shuffle r x y index
  proof -
    from handleMouseMove_selected[OF c that] obtain n where n: "nextTimerId s \<le> n"
      and p: "pendingFor index (handleMouseMove g shuffle r x y s)
                = [\<lparr>tid = n, due = now s + 400, callback = DwellTimeout index\<rparr>]"
      and l: "fmlookup (squaresState (handleMouseMove g shuffle r x y s)) index
                = Some \<lparr>state = Highlighted, timeoutId = Some n\<rparr>"
      by blast
    have "t < n" if "handleOf (squaresState s) index = Some t" for t
      using consistentD(4)[OF c that] n by simp
    with n p l show ?thesis by blast
  qed
  from one re show ?thesis by blast
qed

text \<open>
  When the component is removed, the cleanup function cancels every timer whose handle is
  recorded in the mapping that its closure holds.  In a reachable state whose latest
  mapping has been rendered, that closure holds the current mapping, and after the cleanup
  no timer is pending at all.
\<close>

lemma unmount_after_render:
  assumes "reachable g s"
  shows "(\<forall>k t. handleOf (effectSquares s) k = Some t \<longrightarrow> t \<notin> tid ` set (timers (unmount s)))
    \<and> (\<not> renderPending s \<longrightarrow>
          effectSquares s = squaresState s
        \<and> timers (unmount s) = []
        \<and> (\<forall>t. fireTimer t (unmount s) = unmount s))"
proof -
  have c: "consistent s" using assms by (rule reachable_consistent)
  have r: "rendered s" using assms by (rule reachable_rendered)
  have a: "\<forall>k t. handleOf (effectSquares s) k = Some t \<longrightarrow> t \<notin> tid ` set (timers (unmount s))"
    using unmount_recorded by blast
  have b: "effectSquares s = squaresState s \<and> timers (unmount s) = []
        \<and> (\<forall>t. fireTimer t (unmount s) = unmount s)" if "\<not> renderPending s"
  proof -
    from r that have e: "effectSquares s = squaresState s" by (simp add: rendered_def)
    from unmount_rendered[OF c e] have t: "timers (unmount s) = []" .
    then have "fireTimer t (unmount s) = unmount s" for t by (simp add: fireTimer_def)
    with e t show ?thesis by simp
  qed
  from a b show ?thesis by blast
qed

section \<open>The claims\<close>






text \<open>
  C3.  The claim fails on the component.  On a grid of 3 by 1 squares, square 1 is
  highlighted at time 0 with the dwell timer 1, due at time 400, and React renders.  At
  time 399 the pointer enters square 1, and the updater runs at once; before React renders,
  the pointer enters square 2, and the updater of this event, which selects square 1, waits
  in React's queue.  At time 400, still before the render, timer 1 fires, and the updater
  of its callback is queued behind.  At the render the updater of the event finds the handle
  1 in the entry of square 1, clears it in vain, and sets the dwell timer 4; then the
  updater of timer 1 finds square 1 \<open>Highlighted\<close>, makes it \<open>Fading\<close> and sets the
  removal timer 5, without clearing handle 4.  Square 1 now has two pending timers.  The
  lemma \<open>reachable_one_pending_timer\<close> shows that this cannot happen when every updater
  runs at once.
\<close>

theorem queued_updaters_leave_two_timers:
  "pendingFor 1 (current (renderFiber (onMouseMove grid31 id 0 5 5 mountFiber)))
     = [\<lparr>tid = 1, due = 400, callback = DwellTimeout 1\<rparr>]
   \<and> updateQueue (onTimeout 1 (wait 1 (onMouseMove grid31 id 0 25 5
        (onMouseMove grid31 id 0 15 5 (wait 399 (renderFiber (onMouseMove grid31 id 0 5 5 mountFiber)))))))
     = [Move [1], Timeout (DwellTimeout 1)]
   \<and> now (current (renderFiber (onTimeout 1 (wait 1 (onMouseMove grid31 id 0 25 5
        (onMouseMove grid31 id 0 15 5 (wait 399 (renderFiber (onMouseMove grid31 id 0 5 5 mountFiber))))))))) = 400
   \<and> pendingFor 1 (current (renderFiber (onTimeout 1 (wait 1 (onMouseMove grid31 id 0 25 5
        (onMouseMove grid31 id 0 15 5 (wait 399 (renderFiber (onMouseMove grid31 id 0 5 5 mountFiber)))))))))
     = [\<lparr>tid = 4, due = 800, callback = DwellTimeout 1\<rparr>,
        \<lparr>tid = 5, due = 900, callback = RemovalTimeout 1\<rparr>]
   \<and> fmlookup (squaresState (current (renderFiber (onTimeout 1 (wait 1 (onMouseMove grid31 id 0 25 5
        (onMouseMove grid31 id 0 15 5 (wait 399 (renderFiber (onMouseMove grid31 id 0 5 5 mountFiber)))))))))) 1
     = Some \<lparr>state = Fading, timeoutId = Some 5\<rparr>"
proof -
  have a: "pendingFor 1 (current (renderFiber (onMouseMove grid31 id 0 5 5 mountFiber)))
     = [\<lparr>tid = 1, due = 400, callback = DwellTimeout 1\<rparr>]"
    unfolding race1 by (simp add: pendingFor_def)
  have b: "updateQueue (onTimeout 1 (wait 1 (onMouseMove grid31 id 0 25 5
        (onMouseMove grid31 id 0 15 5 (wait 399 (renderFiber (onMouseMove grid31 id 0 5 5 mountFiber)))))))
     = [Move [1], Timeout (DwellTimeout 1)]"
    unfolding race3 by simp
  show ?thesis
    unfolding race4 using a b by (simp add: pendingFor_def)
qed

text \<open>
  C4.  The claim fails on the component.  On a grid of 3 by 3 squares of 10 by 10, the
  pointer enters square 4 at time 0 and squares 0, 1, 2 and 3 become \<open>Highlighted\<close>; the
  component is rendered; at time 100 the pointer enters square 5, which selects squares 1,
  2, 4 and 7, not square 0; the component is rendered again.  This second render runs the
  cleanup function of the first one, which clears every handle of the first mapping, among
  them the dwell timer of square 0, although square 0 was not triggered again.  At time
  400 square 0 is still \<open>Highlighted\<close> and has no pending timer, so it never becomes
  \<open>Fading\<close>.  The lemma \<open>render_cancels_recorded\<close> states the cause for every state;
  the lemma \<open>lifecycle_grid21\<close> shows the life cycle of a square that no render disturbs.
\<close>

theorem dwell_timer_lost_on_rerender:
  "fmlookup (squaresState (render (handleMouseMove grid33 id 0 15 15 mount))) 0
     = Some \<lparr>state = Highlighted, timeoutId = Some 1\<rparr>
   \<and> pendingFor 0 (render (handleMouseMove grid33 id 0 15 15 mount))
     = [\<lparr>tid = 1, due = 400, callback = DwellTimeout 0\<rparr>]
   \<and> 0 \<notin> set (randomNeighbors grid33 id 0 25 15)
   \<and> now (elapse 300 (render (handleMouseMove grid33 id 0 25 15
        (elapse 100 (render (handleMouseMove grid33 id 0 15 15 mount)))))) = 400
   \<and> fmlookup (squaresState (elapse 300 (render (handleMouseMove grid33 id 0 25 15
        (elapse 100 (render (handleMouseMove grid33 id 0 15 15 mount))))))) 0
     = Some \<lparr>state = Highlighted, timeoutId = Some 1\<rparr>
   \<and> pendingFor 0 (elapse 300 (render (handleMouseMove grid33 id 0 25 15
        (elapse 100 (render (handleMouseMove grid33 id 0 15 15 mount)))))) = []
   \<and> fireTimer 1 (elapse 300 (render (handleMouseMove grid33 id 0 25 15
        (elapse 100 (render (handleMouseMove grid33 id 0 15 15 mount))))))
     = elapse 300 (render (handleMouseMove grid33 id 0 25 15
        (elapse 100 (render (handleMouseMove grid33 id 0 15 15 mount)))))"
proof -
  have a: "fmlookup (squaresState (render (handleMouseMove grid33 id 0 15 15 mount))) 0
     = Some \<lparr>state = Highlighted, timeoutId = Some 1\<rparr>"
    unfolding move_grid33 by simp
  have b: "pendingFor 0 (render (handleMouseMove grid33 id 0 15 15 mount))
     = [\<lparr>tid = 1, due = 400, callback = DwellTimeout 0\<rparr>]"
    unfolding move_grid33 by (simp add: pendingFor_def)
  have c: "0 \<notin> set (randomNeighbors grid33 id 0 25 15)"
    by (simp add: randomNeighbors_def slice0_def getNeighbors_def grid33_def)
  show ?thesis
    unfolding rerender_grid33 using a b c
    by (simp add: pendingFor_def fireTimer_def)
qed






text \<open>
  C7.  The claim fails on the component.  On the grid of 2 by 1 squares, square 1 is
  highlighted at time 0 and its dwell timer fires at time 400: the square is \<open>Fading\<close> and
  its removal timer is due at time 900.  A pointer-leave event at time 500 clears that
  timer and, as the square is not \<open>Highlighted\<close>, sets no new one: the square keeps its
  \<open>Fading\<close> entry and no timer is pending, so the entry is never removed.  The lemma
  \<open>handleMouseLeave_fading\<close> states this for every \<open>Fading\<close> square of a consistent state.
\<close>

theorem handleMouseLeave_strands_fading:
  "fmlookup (squaresState (render (fireTimer 1 (elapse 400
        (render (handleMouseMove grid21 id 0 5 5 mount)))))) 1
     = Some \<lparr>state = Fading, timeoutId = Some 2\<rparr>
   \<and> pendingFor 1 (render (fireTimer 1 (elapse 400 (render (handleMouseMove grid21 id 0 5 5 mount)))))
     = [\<lparr>tid = 2, due = 900, callback = RemovalTimeout 1\<rparr>]
   \<and> fmlookup (squaresState (handleMouseLeave (elapse 100 (render (fireTimer 1 (elapse 400
        (render (handleMouseMove grid21 id 0 5 5 mount)))))))) 1
     = Some \<lparr>state = Fading, timeoutId = Some 2\<rparr>
   \<and> timers (handleMouseLeave (elapse 100 (render (fireTimer 1 (elapse 400
        (render (handleMouseMove grid21 id 0 5 5 mount))))))) = []"
  unfolding fire_grid21
  by (simp add: pendingFor_def handleMouseLeave_def fadeSquare_def objectKeys_def
      clearSquareTimeout_def clearTimeout_def elapse_def Let_def del: One_nat_def)

text \<open>
  C8.  The claim fails on the component.  On the grid of 2 by 1 squares the pointer enters
  square 0: the updater highlights square 1 and sets its dwell timer, whose handle 1 is
  recorded in the activation mapping.  When the component is removed before React has
  rendered this mapping, the cleanup function that runs is the one of the previous render,
  closed over the mapping of that render, which is empty: it clears nothing, and timer 1
  is still pending after the teardown.  Once the mapping has been rendered the cleanup
  clears the timer (lemma \<open>unmount_after_render\<close>).
\<close>

theorem unmount_misses_unrendered_timers:
  "renderPending (handleMouseMove grid21 id 0 5 5 mount)
   \<and> handleOf (squaresState (handleMouseMove grid21 id 0 5 5 mount)) 1 = Some 1
   \<and> effectSquares (handleMouseMove grid21 id 0 5 5 mount) = fmempty
   \<and> timers (unmount (handleMouseMove grid21 id 0 5 5 mount))
       = [\<lparr>tid = 1, due = 400, callback = DwellTimeout 1\<rparr>]
   \<and> timers (unmount (render (handleMouseMove grid21 id 0 5 5 mount))) = []"
  unfolding render_move_grid21 unfolding move_grid21
  by (simp add: handleOf_def unmount_def cleanupTimeouts_def objectKeys_def clearSquareTimeout_def
      clearTimeout_def del: One_nat_def)




text \<open>
  C10.  A timer callback that comes too late changes neither the activation mapping nor
  the timers: the dwell callback when the square has no entry or its entry is not
  \<open>Highlighted\<close>, the removal callback when the square has no entry or its entry is not
  \<open>Fading\<close>.  A square that is still \<open>Highlighted\<close> is moved to \<open>Fading\<close> by the dwell
  callback, with every other entry unchanged, and a square that is still \<open>Fading\<close> is
  deleted by the removal callback.
\<close>

theorem stale_timeouts_change_nothing:
  "(map_option state (fmlookup (squaresState s) index) \<noteq> Some Highlighted \<longrightarrow>
      squaresState (dwellTimeout index s) = squaresState s
      \<and> timers (dwellTimeout index s) = timers s)
   \<and> (map_option state (fmlookup (squaresState s) index) = Some Highlighted \<longrightarrow>
      map_option state (fmlookup (squaresState (dwellTimeout index s)) index) = Some Fading
      \<and> (\<forall>k. k \<noteq> index \<longrightarrow>
            fmlookup (squaresState (dwellTimeout index s)) k = fmlookup (squaresState s) k))
   \<and> (map_option state (fmlookup (squaresState s) index) \<noteq> Some Fading \<longrightarrow>
      squaresState (removalTimeout index s) = squaresState s
      \<and> timers (removalTimeout index s) = timers s)
   \<and> (map_option state (fmlookup (squaresState s) index) = Some Fading \<longrightarrow>
      squaresState (removalTimeout index s) = fmdrop index (squaresState s)
      \<and> timers (removalTimeout index s) = timers s)"
  by (simp add: dwellTimeout_def removalTimeout_def setTimeout_def Let_def split: option.splits)

theorem stale_timeouts_change_nothing_witness:
  "map_option state (fmlookup (squaresState (handleMouseMove grid21 id 0 5 5 mount)) 0) \<noteq> Some Highlighted
   \<and> squaresState (dwellTimeout 0 (handleMouseMove grid21 id 0 5 5 mount))
       = squaresState (handleMouseMove grid21 id 0 5 5 mount)
   \<and> map_option state (fmlookup (squaresState (handleMouseMove grid21 id 0 5 5 mount)) 1) \<noteq> Some Fading
   \<and> squaresState (removalTimeout 1 (handleMouseMove grid21 id 0 5 5 mount))
       = squaresState (handleMouseMove grid21 id 0 5 5 mount)
   \<and> map_option state (fmlookup (squaresState (handleMouseMove grid21 id 0 5 5 mount)) 1) = Some Highlighted
   \<and> map_option state
        (fmlookup (squaresState (dwellTimeout 1 (handleMouseMove grid21 id 0 5 5 mount))) 1) = Some Fading
   \<and> squaresState (removalTimeout 1 (dwellTimeout 1 (handleMouseMove grid21 id 0 5 5 mount)))
       = fmdrop 1 (squaresState (dwellTimeout 1 (handleMouseMove grid21 id 0 5 5 mount)))"
proof -
  let ?s = "handleMouseMove grid21 id 0 5 5 mount"
  have a: "map_option state (fmlookup (squaresState ?s) 0) \<noteq> Some Highlighted"
    by (simp add: move_grid21)
  have b: "map_option state (fmlookup (squaresState ?s) 1) \<noteq> Some Fading"
    by (simp add: move_grid21)
  have c: "map_option state (fmlookup (squaresState ?s) 1) = Some Highlighted"
    by (simp add: move_grid21)
  have A: "squaresState (dwellTimeout 0 ?s) = squaresState ?s"
    using stale_timeouts_change_nothing[of ?s 0] a by blast
  have B: "squaresState (removalTimeout 1 ?s) = squaresState ?s"
    using stale_timeouts_change_nothing[of ?s 1] b by blast
  have d: "map_option state (fmlookup (squaresState (dwellTimeout 1 ?s)) 1) = Some Fading"
    using stale_timeouts_change_nothing[of ?s 1] c by blast
  have E: "squaresState (removalTimeout 1 (dwellTimeout 1 ?s)) = fmdrop 1 (squaresState (dwellTimeout 1 ?s))"
    using stale_timeouts_change_nothing[of "dwellTimeout 1 ?s" 1] d by blast
  show ?thesis
    by (intro conjI a b c d A B E)
qed

end
